theory Spec2Isabelle
  imports Complex_Main "HOL-Library.AList" "HOL-Library.Word"
begin

section \<open>Data model (db.ts)\<close>

text \<open>
  A public key is modelled by its base58 text (\<open>equals\<close> is equality of keys and
  \<open>toBase58\<close> is injective). A byte buffer holding a signature is modelled by the
  string of its bytes; its base64 and base58 renderings are injective renamings and
  are left out. Timestamps are natural numbers read from a clock that is passed in.
\<close>

type_synonym PublicKey = string

text \<open>\<open>CREATED\<close> is the state of an admitted record that has not been broadcast yet.\<close>

datatype TransactionStatus = CREATED | SUBMITTED | PROCESSED | CONFIRMED | FINALIZED | FAILED

text \<open>
  A JavaScript \<open>number\<close> that reaches the store unchecked: a finite value, \<open>NaN\<close>
  or an infinity. \<open>js_less h n\<close> is the comparison \<open>h < n\<close> of an integer height
  with such a number: false for \<open>NaN\<close>, and the order of the reals otherwise.
\<close>

datatype number = Num real | NaN | PosInfinity | NegInfinity

fun js_less :: "int \<Rightarrow> number \<Rightarrow> bool" where
  "js_less h (Num x) = (real_of_int h < x)"
| "js_less h NaN = False"
| "js_less h PosInfinity = True"
| "js_less h NegInfinity = False"

record TransactionRecord =
  signature :: string
  serializedTransaction :: string
  sender :: string
  recipient :: string
  amount :: nat
  lastValidBlockHeight :: number
  status :: TransactionStatus
  createdAt :: nat
  updatedAt :: nat

record UserRecord =
  user_publicKey :: string
  user_name :: string

text \<open>
  The two JavaScript \<open>Map\<close>s are association lists in insertion order:
  \<open>Map.get\<close> is \<open>map_of\<close>, \<open>Map.has\<close> is \<open>map_of \<dots> \<noteq> None\<close> and
  \<open>Map.set\<close> is \<open>AList.update\<close> (replace in place, else append).
\<close>

record Database =
  transactions :: "(string \<times> TransactionRecord) list"
  users :: "(string \<times> UserRecord) list"

definition empty_db :: Database where
  "empty_db = \<lparr>transactions = [], users = []\<rparr>"

definition addUser :: "Database \<Rightarrow> string \<Rightarrow> string \<Rightarrow> Database" where
  "addUser db pk nm =
     db\<lparr>users := AList.update pk \<lparr>user_publicKey = pk, user_name = nm\<rparr> (users db)\<rparr>"

definition getUser :: "Database \<Rightarrow> string \<Rightarrow> UserRecord option" where
  "getUser db pk = map_of (users db) pk"

definition isUserRegistered :: "Database \<Rightarrow> string \<Rightarrow> bool" where
  "isUserRegistered db pk = (map_of (users db) pk \<noteq> None)"

definition isCompliant :: "Database \<Rightarrow> string \<Rightarrow> bool" where
  "isCompliant db pk = True"

definition addTransaction :: "Database \<Rightarrow> TransactionRecord \<Rightarrow> Database" where
  "addTransaction db rec =
     (if map_of (transactions db) (signature rec) = None
      then db\<lparr>transactions := AList.update (signature rec) rec (transactions db)\<rparr>
      else db)"

definition getTransaction :: "Database \<Rightarrow> string \<Rightarrow> TransactionRecord option" where
  "getTransaction db sg = map_of (transactions db) sg"

definition updateTransactionStatus ::
  "Database \<Rightarrow> string \<Rightarrow> TransactionStatus \<Rightarrow> nat \<Rightarrow> Database" where
  "updateTransactionStatus db sg st now =
     (case map_of (transactions db) sg of
        None \<Rightarrow> db
      | Some r \<Rightarrow>
          db\<lparr>transactions :=
               AList.update sg (r\<lparr>status := st, updatedAt := now\<rparr>) (transactions db)\<rparr>)"

definition terminalStates :: "TransactionStatus list" where
  "terminalStates = [FINALIZED, FAILED]"

text \<open>
  A stored record is a heap object that the workflow later reads and the store mutates
  in place. The model names such an object by the key under which the \<open>Map\<close> holds it,
  so the result lists every non-terminal object as that key with its current fields.
\<close>

definition getNonTerminalTransactions :: "Database \<Rightarrow> (string \<times> TransactionRecord) list" where
  "getNonTerminalTransactions db =
     filter (\<lambda>(k, tx). status tx \<notin> set terminalStates) (transactions db)"

definition getAllTransactions :: "Database \<Rightarrow> TransactionRecord list" where
  "getAllTransactions db = map snd (transactions db)"

section \<open>Transactions and the library boundary\<close>

record AccountMeta =
  pubkey :: PublicKey
  isSigner :: bool
  isWritable :: bool

record TransactionInstruction =
  programId :: PublicKey
  keys :: "AccountMeta list"
  data :: "8 word list"

record SignaturePubkeyPair =
  pair_signature :: "string option"
  publicKey :: PublicKey

record Transaction =
  instructions :: "TransactionInstruction list"
  feePayer :: "PublicKey option"
  recentBlockhash :: "string option"
  signatures :: "SignaturePubkeyPair list"

record Keypair =
  kp_publicKey :: PublicKey
  secretKey :: string

text \<open>
  The functions of \<open>@solana/web3.js\<close> and \<open>@solana/spl-token\<close> that the relayer and
  the workflow call are parameters. Each returns \<open>Inl msg\<close> where the library throws
  an error with message \<open>msg\<close>.
\<close>

record Lib =
  Transaction_from :: "string \<Rightarrow> string + Transaction"
  serialize :: "Transaction \<Rightarrow> string + string"
  partialSign :: "Keypair \<Rightarrow> Transaction \<Rightarrow> string + Transaction"
  getAssociatedTokenAddressSync :: "PublicKey \<Rightarrow> PublicKey \<Rightarrow> string + PublicKey"

text \<open>
  \<open>USDC_MINT\<close> is the constant of \<open>relayer.ts\<close>; the two program ids are
  the ones that \<open>@solana/spl-token\<close> exports. No claim depends on their values.
\<close>

definition USDC_MINT :: PublicKey where
  "USDC_MINT = ''4zMMC9srt5Ri5X14GAgXhaHii3GnPAEERYPJgZJDncDU''"

definition TOKEN_PROGRAM_ID :: PublicKey where
  "TOKEN_PROGRAM_ID = ''TokenkegQfeZyiNwAJbNbGKPFXCWuBvf9Ss623VQ5DA''"

definition ASSOCIATED_TOKEN_PROGRAM_ID :: PublicKey where
  "ASSOCIATED_TOKEN_PROGRAM_ID = ''ATokenGPvbdGVxr1b2hvZbsiqW5xWH25efTNsLJA8knL''"

definition TRANSFER_CHECKED_DISCRIMINATOR :: "8 word" where
  "TRANSFER_CHECKED_DISCRIMINATOR = 12"

definition CREATE_IDEMPOTENT_ATA_DISCRIMINATOR :: "8 word" where
  "CREATE_IDEMPOTENT_ATA_DISCRIMINATOR = 1"

text \<open>\<open>transaction.signature\<close>: the first signature slot, or null without slots.\<close>

definition tx_signature :: "Transaction \<Rightarrow> string option" where
  "tx_signature t = (case signatures t of [] \<Rightarrow> None | p # _ \<Rightarrow> pair_signature p)"

text \<open>\<open>Buffer.readBigUInt64LE(1)\<close> on a buffer of at least nine bytes.\<close>

definition readBigUInt64LE1 :: "8 word list \<Rightarrow> nat" where
  "readBigUInt64LE1 bs = foldr (\<lambda>b acc. unat b + 256 * acc) (take 8 (drop 1 bs)) 0"

text \<open>Decimal rendering of a length inside a template string.\<close>

definition digit_char :: "nat \<Rightarrow> char" where
  "digit_char d = ''0123456789'' ! d"

function show_nat :: "nat \<Rightarrow> string" where
  "show_nat n = (if n < 10 then [digit_char n] else show_nat (n div 10) @ [digit_char (n mod 10)])"
  by pat_completeness auto
termination
  by (relation "measure id") auto

declare show_nat.simps [simp del]

section \<open>The admission gate (relayer.ts)\<close>

text \<open>
  A validation either succeeds, returns \<open>{valid: false, error}\<close> (\<open>Reject\<close>), or is
  cut short by an error thrown in the library (\<open>Throw\<close>).
\<close>

datatype 'a outcome = Ok 'a | Reject string | Throw string

record Validated =
  v_sender :: string
  v_recipient :: string
  v_amount :: nat

definition getRecipientFromCreateAta :: "TransactionInstruction \<Rightarrow> PublicKey" where
  "getRecipientFromCreateAta instruction = pubkey (keys instruction ! 2)"

definition validateCreateAtaInstruction :: "TransactionInstruction \<Rightarrow> string + PublicKey" where
  "validateCreateAtaInstruction instruction =
     (if programId instruction \<noteq> ASSOCIATED_TOKEN_PROGRAM_ID
      then Inl ''First instruction must be from Associated Token Program''
      else if length (data instruction) \<noteq> 1
              \<or> data instruction ! 0 \<noteq> CREATE_IDEMPOTENT_ATA_DISCRIMINATOR
      then Inl ''First instruction must be create idempotent ATA''
      else if length (keys instruction) < 6
      then Inl ''Invalid create ATA instruction accounts''
      else
        let targetAta = pubkey (keys instruction ! 1);
            mint = pubkey (keys instruction ! 3)
        in if mint \<noteq> USDC_MINT then Inl ''ATA must be for USDC token''
           else Inr targetAta)"

definition validateTransferInstruction ::
  "Lib \<Rightarrow> TransactionInstruction \<Rightarrow> PublicKey \<Rightarrow> Validated outcome" where
  "validateTransferInstruction lib instruction recipientKey =
     (if programId instruction \<noteq> TOKEN_PROGRAM_ID
      then Reject ''Second instruction must be from Token Program''
      else if length (data instruction) < 9
              \<or> data instruction ! 0 \<noteq> TRANSFER_CHECKED_DISCRIMINATOR
      then Reject ''Second instruction must be TransferChecked''
      else
        let amountRead = readBigUInt64LE1 (data instruction)
        in if length (keys instruction) < 4
           then Reject ''Invalid TransferChecked instruction accounts''
           else
             let sourceAta = pubkey (keys instruction ! 0);
                 mint = pubkey (keys instruction ! 1);
                 destAta = pubkey (keys instruction ! 2);
                 sourceOwner = pubkey (keys instruction ! 3)
             in if mint \<noteq> USDC_MINT then Reject ''Transfer must be USDC token''
                else
                  (case getAssociatedTokenAddressSync lib USDC_MINT sourceOwner of
                     Inl e \<Rightarrow> Throw e
                   | Inr expectedSourceAta \<Rightarrow>
                       if sourceAta \<noteq> expectedSourceAta
                       then Reject ''Source ATA does not match sender's USDC ATA''
                       else
                         (case getAssociatedTokenAddressSync lib USDC_MINT recipientKey of
                            Inl e \<Rightarrow> Throw e
                          | Inr expectedDestAta \<Rightarrow>
                              if destAta \<noteq> expectedDestAta
                              then Reject ''Destination ATA does not match recipient's USDC ATA''
                              else Ok \<lparr>v_sender = sourceOwner, v_recipient = recipientKey,
                                       v_amount = amountRead\<rparr>)))"

text \<open>
  The checks that follow the two instruction validators: registry, compliance,
  signature presence and the signer list.
\<close>

definition validateParties ::
  "Keypair \<Rightarrow> Database \<Rightarrow> Transaction \<Rightarrow> Validated \<Rightarrow> Validated outcome" where
  "validateParties keypair db transaction transferResult =
     (if \<not> isUserRegistered db (v_sender transferResult)
      then Reject ''Sender is not a registered user''
      else if \<not> isUserRegistered db (v_recipient transferResult)
      then Reject ''Recipient is not a registered user''
      else if \<not> isCompliant db (v_sender transferResult)
      then Reject ''Sender is not compliant''
      else if \<not> isCompliant db (v_recipient transferResult)
      then Reject ''Recipient is not compliant''
      else if (case find (\<lambda>sg. publicKey sg = v_sender transferResult) (signatures transaction) of
                 None \<Rightarrow> True
               | Some senderSignatureInfo \<Rightarrow> pair_signature senderSignatureInfo = None)
      then Reject ''Sender signature is missing''
      else if (case find (\<lambda>sg. publicKey sg = kp_publicKey keypair) (signatures transaction) of
                 None \<Rightarrow> False
               | Some relayerSignatureInfo \<Rightarrow> pair_signature relayerSignatureInfo \<noteq> None)
      then Reject ''Relayer signature should not be present yet''
      else
        (case find (\<lambda>sg. publicKey sg \<notin> {kp_publicKey keypair, v_sender transferResult})
                (signatures transaction) of
           Some sg \<Rightarrow> Reject (''Unexpected signer: '' @ publicKey sg)
         | None \<Rightarrow> Ok transferResult))"

definition validateTransaction ::
  "Lib \<Rightarrow> Keypair \<Rightarrow> Database \<Rightarrow> Transaction \<Rightarrow> Validated outcome" where
  "validateTransaction lib keypair db transaction =
     (let instrs = instructions transaction
      in if length instrs \<noteq> 2
         then Reject (''Expected 2 instructions, got '' @ show_nat (length instrs))
         else if feePayer transaction \<noteq> Some (kp_publicKey keypair)
         then Reject ''Fee payer must be the relayer''
         else
           (case validateCreateAtaInstruction (instrs ! 0) of
              Inl e \<Rightarrow> Reject e
            | Inr targetAta \<Rightarrow>
                let recipientKey = getRecipientFromCreateAta (instrs ! 0)
                in (case validateTransferInstruction lib (instrs ! 1) recipientKey of
                      Reject e \<Rightarrow> Reject e
                    | Throw e \<Rightarrow> Throw e
                    | Ok transferResult \<Rightarrow>
                        (case getAssociatedTokenAddressSync lib USDC_MINT
                                (v_recipient transferResult) of
                           Inl e \<Rightarrow> Throw e
                         | Inr recipientAta \<Rightarrow>
                             if targetAta \<noteq> recipientAta
                             then Reject ''ATA creation must target recipient's USDC ATA''
                             else validateParties keypair db transaction transferResult))))"

datatype RelayResult = Success string | Failure string

text \<open>
  \<open>relayTransaction\<close> returns its answer and the store it leaves. Every error
  thrown inside its \<open>try\<close> block becomes a \<open>Failure\<close> carrying the message.
\<close>

definition relayTransaction ::
  "Lib \<Rightarrow> Keypair \<Rightarrow> nat \<Rightarrow> Database \<Rightarrow> string \<Rightarrow> number \<Rightarrow> RelayResult \<times> Database" where
  "relayTransaction lib keypair now db serialized lastValid =
     (case Transaction_from lib serialized of
        Inl e \<Rightarrow> (Failure e, db)
      | Inr transaction \<Rightarrow>
          (case validateTransaction lib keypair db transaction of
             Reject e \<Rightarrow> (Failure e, db)
           | Throw e \<Rightarrow> (Failure e, db)
           | Ok validationResult \<Rightarrow>
               (case partialSign lib keypair transaction of
                  Inl e \<Rightarrow> (Failure e, db)
                | Inr signedTx \<Rightarrow>
                    if (case tx_signature signedTx of None \<Rightarrow> True | Some sg \<Rightarrow> sg = [])
                    then (Failure ''Failed to get transaction signature'', db)
                    else
                      (case (if 1 < length (signatures signedTx)
                             then pair_signature (signatures signedTx ! 1) else None) of
                         None \<Rightarrow> (Failure ''Sender signature not found'', db)
                       | Some transactionId \<Rightarrow>
                           if getTransaction db transactionId \<noteq> None
                           then (Success transactionId, db)
                           else
                             (case serialize lib signedTx of
                                Inl e \<Rightarrow> (Failure e, db)
                              | Inr wire \<Rightarrow>
                                  (Success transactionId,
                                   addTransaction db
                                     \<lparr>signature = transactionId,
                                      serializedTransaction = wire,
                                      sender = v_sender validationResult,
                                      recipient = v_recipient validationResult,
                                      amount = v_amount validationResult,
                                      lastValidBlockHeight = lastValid,
                                      status = CREATED,
                                      createdAt = now,
                                      updatedAt = now\<rparr>))))))"

text \<open>
  The calls that \<open>relayTransaction\<close> makes on the store, in the order in which it
  makes them: inside \<open>validateTransaction\<close>, \<open>db.isUserRegistered\<close> for the sender
  and for the recipient and \<open>db.isCompliant\<close> for the sender and for the
  recipient, each made only if the checks before it have passed; then, back in
  \<open>relayTransaction\<close>, \<open>db.getTransaction\<close> and, for a new id,
  \<open>db.addTransaction\<close>. Each function below follows the control flow of the
  function it is named after and lists the calls made on the way.
\<close>

datatype DbCall =
    IsUserRegistered string
  | IsCompliant string
  | GetTransaction string
  | AddTransaction string

definition validateParties_calls :: "Database \<Rightarrow> Validated \<Rightarrow> DbCall list" where
  "validateParties_calls db transferResult =
     (if \<not> isUserRegistered db (v_sender transferResult)
      then [IsUserRegistered (v_sender transferResult)]
      else if \<not> isUserRegistered db (v_recipient transferResult)
      then [IsUserRegistered (v_sender transferResult),
            IsUserRegistered (v_recipient transferResult)]
      else if \<not> isCompliant db (v_sender transferResult)
      then [IsUserRegistered (v_sender transferResult),
            IsUserRegistered (v_recipient transferResult),
            IsCompliant (v_sender transferResult)]
      else [IsUserRegistered (v_sender transferResult),
            IsUserRegistered (v_recipient transferResult),
            IsCompliant (v_sender transferResult),
            IsCompliant (v_recipient transferResult)])"

definition validateTransaction_calls ::
  "Lib \<Rightarrow> Keypair \<Rightarrow> Database \<Rightarrow> Transaction \<Rightarrow> DbCall list" where
  "validateTransaction_calls lib keypair db transaction =
     (let instrs = instructions transaction
      in if length instrs \<noteq> 2 then []
         else if feePayer transaction \<noteq> Some (kp_publicKey keypair) then []
         else
           (case validateCreateAtaInstruction (instrs ! 0) of
              Inl e \<Rightarrow> []
            | Inr targetAta \<Rightarrow>
                (case validateTransferInstruction lib (instrs ! 1)
                        (getRecipientFromCreateAta (instrs ! 0)) of
                   Reject e \<Rightarrow> []
                 | Throw e \<Rightarrow> []
                 | Ok transferResult \<Rightarrow>
                     (case getAssociatedTokenAddressSync lib USDC_MINT
                             (v_recipient transferResult) of
                        Inl e \<Rightarrow> []
                      | Inr recipientAta \<Rightarrow>
                          if targetAta \<noteq> recipientAta then []
                          else validateParties_calls db transferResult))))"

definition relayTransaction_calls ::
  "Lib \<Rightarrow> Keypair \<Rightarrow> Database \<Rightarrow> string \<Rightarrow> DbCall list" where
  "relayTransaction_calls lib keypair db serialized =
     (case Transaction_from lib serialized of
        Inl e \<Rightarrow> []
      | Inr transaction \<Rightarrow>
          validateTransaction_calls lib keypair db transaction
          @ (case validateTransaction lib keypair db transaction of
               Reject e \<Rightarrow> []
             | Throw e \<Rightarrow> []
             | Ok validationResult \<Rightarrow>
                 (case partialSign lib keypair transaction of
                    Inl e \<Rightarrow> []
                  | Inr signedTx \<Rightarrow>
                      if (case tx_signature signedTx of None \<Rightarrow> True | Some sg \<Rightarrow> sg = [])
                      then []
                      else
                        (case (if 1 < length (signatures signedTx)
                               then pair_signature (signatures signedTx ! 1) else None) of
                           None \<Rightarrow> []
                         | Some transactionId \<Rightarrow>
                             if getTransaction db transactionId \<noteq> None
                             then [GetTransaction transactionId]
                             else
                               (case serialize lib signedTx of
                                  Inl e \<Rightarrow> [GetTransaction transactionId]
                                | Inr wire \<Rightarrow>
                                    [GetTransaction transactionId,
                                     AddTransaction transactionId])))))"

definition getTransactionStatus :: "Database \<Rightarrow> string \<Rightarrow> string + TransactionStatus" where
  "getTransactionStatus db transactionId =
     (case getTransaction db transactionId of
        None \<Rightarrow> Inl ''Transaction not found''
      | Some rec \<Rightarrow> Inr (status rec))"

section \<open>The reconciliation loop (workflow.ts)\<close>

text \<open>
  The ledger node is an oracle: a \<open>Connection\<close> gives the answer of each RPC call
  made while one record is processed, \<open>Inl msg\<close> where the call throws. The
  second argument of \<open>getSignatureStatuses\<close> is \<open>searchTransactionHistory\<close>;
  \<open>getEpochInfo\<close> answers the optional \<open>blockHeight\<close>.
\<close>

record SignatureStatus =
  confirmationStatus :: "string option"

record Connection =
  getSignatureStatuses :: "string \<Rightarrow> bool \<Rightarrow> string + SignatureStatus option"
  isBlockhashValid :: "string option \<Rightarrow> string + bool"
  sendRawTransaction :: "string \<Rightarrow> string + string"
  getEpochInfo :: "string + int option"
  conn_getTransaction :: "string \<Rightarrow> string + string option"

text \<open>
  The state of the workflow is the store together with the receipts sent so far
  (\<open>sendReceipt\<close> prints the record it is given; console output is otherwise left out).
\<close>

type_synonym WState = "Database \<times> TransactionRecord list"

definition sendReceipt :: "TransactionRecord \<Rightarrow> TransactionRecord list \<Rightarrow> TransactionRecord list" where
  "sendReceipt tx sent = sent @ [tx]"

text \<open>
  The handlers receive a stored object: its key \<open>ref\<close> and the fields \<open>tx\<close> read
  from it. After \<open>updateTransactionStatus\<close> the object is read again for the receipt,
  as the JavaScript object has been mutated in place by then.
\<close>

definition handleExistingStatus ::
  "nat \<Rightarrow> string \<times> TransactionRecord \<Rightarrow> string option \<Rightarrow> WState \<Rightarrow> WState" where
  "handleExistingStatus now obj confirmation st =
     (let ref = fst obj; tx = snd obj; db = fst st; sent = snd st
      in case confirmation of
           None \<Rightarrow> st
         | Some c \<Rightarrow>
             if c = [] then st
             else if c = ''processed'' then
               (if status tx \<noteq> PROCESSED
                then (updateTransactionStatus db (signature tx) PROCESSED now, sent)
                else st)
             else if c = ''confirmed'' then
               (if status tx \<noteq> CONFIRMED \<and> status tx \<noteq> FINALIZED
                then (updateTransactionStatus db (signature tx) CONFIRMED now, sent)
                else st)
             else if c = ''finalized'' then
               (if status tx \<noteq> FINALIZED
                then
                  (let db' = updateTransactionStatus db (signature tx) FINALIZED now;
                       live = (case getTransaction db' ref of None \<Rightarrow> tx | Some r \<Rightarrow> r)
                   in (db', sendReceipt live sent))
                else st)
             else st)"

text \<open>The height the workflow takes from \<open>getEpochInfo\<close>: \<open>blockHeight ?? 0\<close>.\<close>

definition heightOf :: "int option \<Rightarrow> int" where
  "heightOf blockHeight = (case blockHeight of None \<Rightarrow> 0 | Some h \<Rightarrow> h)"

definition handleExpiredBlockhash ::
  "Connection \<Rightarrow> nat \<Rightarrow> string \<times> TransactionRecord \<Rightarrow> string \<Rightarrow> WState \<Rightarrow> string + WState" where
  "handleExpiredBlockhash conn now obj onChainSignature st =
     (let tx = snd obj; db = fst st; sent = snd st
      in case getEpochInfo conn of
           Inl e \<Rightarrow> Inl e
         | Inr blockHeight \<Rightarrow>
             let currentBlockHeight = heightOf blockHeight
             in if js_less currentBlockHeight (lastValidBlockHeight tx) then Inr st
                else
                  (case getSignatureStatuses conn onChainSignature True of
                     Inl e \<Rightarrow> Inl e
                   | Inr (Some found) \<Rightarrow> Inr st
                   | Inr None \<Rightarrow>
                       (case conn_getTransaction conn onChainSignature of
                          Inr (Some txResult) \<Rightarrow> Inr st
                        | Inr None \<Rightarrow>
                            Inr (updateTransactionStatus db (signature tx) FAILED now, sent)
                        | Inl e \<Rightarrow>
                            Inr (updateTransactionStatus db (signature tx) FAILED now, sent))))"

text \<open>
  In \<open>handleNullStatus\<close> an error thrown by \<open>serialize\<close> or by the broadcast is
  caught and logged, whatever its message; one thrown by \<open>isBlockhashValid\<close> is not.
\<close>

definition handleNullStatus ::
  "Lib \<Rightarrow> Connection \<Rightarrow> nat \<Rightarrow> string \<times> TransactionRecord \<Rightarrow> Transaction \<Rightarrow> string
     \<Rightarrow> WState \<Rightarrow> string + WState" where
  "handleNullStatus lib conn now obj transaction onChainSignature st =
     (let tx = snd obj; db = fst st; sent = snd st
      in case isBlockhashValid conn (recentBlockhash transaction) of
           Inl e \<Rightarrow> Inl e
         | Inr True \<Rightarrow>
             (case serialize lib transaction of
                Inl e \<Rightarrow> Inr st
              | Inr rawTransaction \<Rightarrow>
                  (case sendRawTransaction conn rawTransaction of
                     Inl e \<Rightarrow> Inr st
                   | Inr sent_id \<Rightarrow>
                       if status tx = CREATED
                       then Inr (updateTransactionStatus db (signature tx) SUBMITTED now, sent)
                       else Inr st))
         | Inr False \<Rightarrow> handleExpiredBlockhash conn now obj onChainSignature st)"

text \<open>
  \<open>processTransaction\<close> is given the key of the object to process and reads its
  fields from the store. Nothing ever deletes a record, so the key is always present;
  the model does nothing for an absent key.

  The call awaits the ledger several times, and other code may run at each await.
  It is modelled as one step, taken at the time of its write, because up to its last
  await it reads only fields that never change (\<open>serializedTransaction\<close>,
  \<open>signature\<close>, \<open>lastValidBlockHeight\<close>), the answers it awaits do not depend on
  the store, and after its last await it runs without interruption: every test of
  \<open>tx.status\<close> is followed at once by the write it guards, and
  \<open>handleExistingStatus\<close> has no await at all. So \<open>tx\<close> below is the object as it
  is when the write happens, which need not be as it was when the cycle took its
  snapshot.
\<close>

definition processTransaction ::
  "Lib \<Rightarrow> Connection \<Rightarrow> nat \<Rightarrow> string \<Rightarrow> WState \<Rightarrow> string + WState" where
  "processTransaction lib conn now ref st =
     (case getTransaction (fst st) ref of
        None \<Rightarrow> Inr st
      | Some tx \<Rightarrow>
          (case Transaction_from lib (serializedTransaction tx) of
             Inl e \<Rightarrow> Inl e
           | Inr transaction \<Rightarrow>
               (case tx_signature transaction of
                  None \<Rightarrow> Inr st
                | Some onChainSignature \<Rightarrow>
                    (case getSignatureStatuses conn onChainSignature False of
                       Inl e \<Rightarrow> Inl e
                     | Inr None \<Rightarrow>
                         handleNullStatus lib conn now (ref, tx) transaction onChainSignature st
                     | Inr (Some found) \<Rightarrow>
                         Inr (handleExistingStatus now (ref, tx) (confirmationStatus found) st)))))"

text \<open>
  The body of the loop in \<open>processTransactions\<close>: an error thrown while a record is
  processed is caught and logged, and the state stays as it was.
\<close>

definition processGuarded ::
  "Lib \<Rightarrow> Connection \<Rightarrow> nat \<Rightarrow> string \<Rightarrow> WState \<Rightarrow> WState" where
  "processGuarded lib conn now ref st =
     (case processTransaction lib conn now ref st of
        Inl e \<Rightarrow> st
      | Inr st' \<Rightarrow> st')"

text \<open>
  One cycle visits the objects that were non-terminal when it began, in store order.
  \<open>conns ref\<close> and \<open>clock ref\<close> are the ledger and the clock while \<open>ref\<close> is
  processed.
\<close>

fun processEach ::
  "Lib \<Rightarrow> (string \<Rightarrow> Connection) \<Rightarrow> (string \<Rightarrow> nat) \<Rightarrow> string list \<Rightarrow> WState \<Rightarrow> WState" where
  "processEach lib conns clock [] st = st"
| "processEach lib conns clock (ref # refs) st =
     processEach lib conns clock refs (processGuarded lib (conns ref) (clock ref) ref st)"

definition processTransactions ::
  "Lib \<Rightarrow> (string \<Rightarrow> Connection) \<Rightarrow> (string \<Rightarrow> nat) \<Rightarrow> WState \<Rightarrow> WState" where
  "processTransactions lib conns clock st =
     processEach lib conns clock (map fst (getNonTerminalTransactions (fst st))) st"

section \<open>Runs of the system\<close>

text \<open>
  \<open>WorkflowProcessor.start\<close> hands the cycle to \<open>setInterval\<close> as an async
  function that nobody awaits, so a new cycle starts while earlier ones are still
  waiting for the ledger: cycles overlap. A run state therefore holds, besides the
  workflow state, the cycles that have started, each as the list of objects it has
  still to visit (its snapshot, taken by \<open>getNonTerminalTransactions\<close> when it
  started). \<open>StartCycle\<close> is the timer firing. \<open>Advance i conn now\<close> lets cycle
  \<open>i\<close> process its next object with the ledger answers \<open>conn\<close>: by the remark at
  \<open>processTransaction\<close> that is one step at the time of its write, whatever has
  happened to the object since the snapshot. The cycles of a run that never overlap
  are the special case \<open>processTransactions\<close>.

  \<open>relayTransaction\<close> awaits once, between the validator and the rest. The validator
  reads only the registry, which only grows, and the rest (sign, look up, insert) runs
  without a further await, so a call is one step too.
\<close>

type_synonym RunState = "WState \<times> string list list"

datatype Action =
    Register string string
  | Submit string number nat
  | StartCycle
  | Advance nat Connection nat

fun step :: "Lib \<Rightarrow> Keypair \<Rightarrow> Action \<Rightarrow> RunState \<Rightarrow> RunState" where
  "step lib keypair (Register pk nm) rs =
     ((addUser (fst (fst rs)) pk nm, snd (fst rs)), snd rs)"
| "step lib keypair (Submit serialized lastValid now) rs =
     ((snd (relayTransaction lib keypair now (fst (fst rs)) serialized lastValid),
       snd (fst rs)), snd rs)"
| "step lib keypair StartCycle rs =
     (fst rs, snd rs @ [map fst (getNonTerminalTransactions (fst (fst rs)))])"
| "step lib keypair (Advance i conn now) rs =
     (if i < length (snd rs)
      then (case snd rs ! i of
              [] \<Rightarrow> rs
            | ref # rest \<Rightarrow> (processGuarded lib conn now ref (fst rs), (snd rs)[i := rest]))
      else rs)"

fun run :: "Lib \<Rightarrow> Keypair \<Rightarrow> Action list \<Rightarrow> RunState \<Rightarrow> RunState" where
  "run lib keypair [] rs = rs"
| "run lib keypair (a # as) rs = run lib keypair as (step lib keypair a rs)"

definition initial :: RunState where
  "initial = ((empty_db, []), [])"

text \<open>The ordering of the lifecycle states; \<open>FAILED\<close> stands outside it.\<close>

fun rank :: "TransactionStatus \<Rightarrow> nat option" where
  "rank CREATED = Some 0"
| "rank SUBMITTED = Some 1"
| "rank PROCESSED = Some 2"
| "rank CONFIRMED = Some 3"
| "rank FINALIZED = Some 4"
| "rank FAILED = None"

definition weaker :: "TransactionStatus \<Rightarrow> TransactionStatus \<Rightarrow> bool" where
  "weaker a b = (case (rank a, rank b) of (Some x, Some y) \<Rightarrow> x < y | _ \<Rightarrow> False)"

text \<open>
  Well-formed stores: keys are distinct (it is a \<open>Map\<close>) and every record is held
  under its own \<open>signature\<close>, as \<open>addTransaction\<close> stores it.
\<close>

definition wf_db :: "Database \<Rightarrow> bool" where
  "wf_db db \<longleftrightarrow>
     distinct (map fst (transactions db))
     \<and> list_all (\<lambda>(k, tx). signature tx = k) (transactions db)"

text \<open>
  The number of receipts sent for the record with a given signature, and the state of
  affairs in which every record has had one receipt if it is \<open>FINALIZED\<close> and none
  otherwise. A cycle that runs alone keeps it; overlapping cycles need not.
\<close>

definition receipts_for :: "string \<Rightarrow> TransactionRecord list \<Rightarrow> nat" where
  "receipts_for k sent = length (filter (\<lambda>r. signature r = k) sent)"

definition finalized_at :: "Database \<Rightarrow> string \<Rightarrow> bool" where
  "finalized_at db k = (case getTransaction db k of None \<Rightarrow> False | Some r \<Rightarrow> status r = FINALIZED)"

definition receipts_match :: "WState \<Rightarrow> bool" where
  "receipts_match st \<longleftrightarrow>
     (\<forall>k. receipts_for k (snd st) = (if finalized_at (fst st) k then 1 else 0))"

section \<open>A worked scenario\<close>

text \<open>
  Concrete inputs for the closed examples below. The library is replaced by a small
  test double: associated token addresses are derived by name, the relayer's signature
  is written into its own slot, and a few wire strings decode to the transactions of
  the scenario. The transfer is the one \<open>client.ts\<close> builds: an idempotent
  creation of the recipient's token account paid by the relayer, then a checked
  transfer of 10 USDC (10000000 units, 6 decimals) signed by the sender.
\<close>

definition demo_ata :: "PublicKey \<Rightarrow> PublicKey \<Rightarrow> string + PublicKey" where
  "demo_ata mint owner = Inr (''ata:'' @ owner @ '':'' @ mint)"

definition the_ata :: "PublicKey \<Rightarrow> PublicKey \<Rightarrow> PublicKey" where
  "the_ata mint owner = ''ata:'' @ owner @ '':'' @ mint"

definition demo_keypair :: Keypair where
  "demo_keypair = \<lparr>kp_publicKey = ''Relayer'', secretKey = ''relayer-secret''\<rparr>"

definition meta :: "PublicKey \<Rightarrow> bool \<Rightarrow> bool \<Rightarrow> AccountMeta" where
  "meta k s w = \<lparr>pubkey = k, isSigner = s, isWritable = w\<rparr>"

definition demo_createAta :: "PublicKey \<Rightarrow> TransactionInstruction" where
  "demo_createAta mint =
     \<lparr>programId = ASSOCIATED_TOKEN_PROGRAM_ID,
      keys = [meta ''Relayer'' True True, meta (the_ata mint ''Bob'') False True,
              meta ''Bob'' False False, meta mint False False,
              meta ''11111111111111111111111111111111'' False False,
              meta TOKEN_PROGRAM_ID False False],
      data = [1]\<rparr>"

definition demo_transfer :: "PublicKey \<Rightarrow> TransactionInstruction" where
  "demo_transfer mint =
     \<lparr>programId = TOKEN_PROGRAM_ID,
      keys = [meta (the_ata mint ''Alice'') False True, meta mint False False,
              meta (the_ata mint ''Bob'') False True, meta ''Alice'' True False],
      data = [12, 128, 150, 152, 0, 0, 0, 0, 0, 6]\<rparr>"

definition demo_tx :: Transaction where
  "demo_tx =
     \<lparr>instructions = [demo_createAta USDC_MINT, demo_transfer USDC_MINT],
      feePayer = Some ''Relayer'',
      recentBlockhash = Some ''blockhash-1'',
      signatures = [\<lparr>pair_signature = None, publicKey = ''Relayer''\<rparr>,
                    \<lparr>pair_signature = Some ''sig-alice'', publicKey = ''Alice''\<rparr>]\<rparr>"

definition demo_tx_signed :: Transaction where
  "demo_tx_signed =
     demo_tx\<lparr>signatures := [\<lparr>pair_signature = Some ''sig-relayer'', publicKey = ''Relayer''\<rparr>,
                             \<lparr>pair_signature = Some ''sig-alice'', publicKey = ''Alice''\<rparr>]\<rparr>"

definition demo_tx_three :: Transaction where
  "demo_tx_three =
     demo_tx\<lparr>instructions :=
               [demo_createAta USDC_MINT, demo_transfer USDC_MINT, demo_transfer USDC_MINT]\<rparr>"

definition demo_tx_other_mint :: Transaction where
  "demo_tx_other_mint =
     demo_tx\<lparr>instructions := [demo_createAta USDC_MINT, demo_transfer ''OtherMint'']\<rparr>"

definition demo_tx_extra_signer :: Transaction where
  "demo_tx_extra_signer =
     demo_tx\<lparr>signatures := [\<lparr>pair_signature = None, publicKey = ''Relayer''\<rparr>,
                             \<lparr>pair_signature = Some ''sig-alice'', publicKey = ''Alice''\<rparr>,
                             \<lparr>pair_signature = Some ''sig-mallory'', publicKey = ''Mallory''\<rparr>]\<rparr>"

text \<open>
  The same transfer with a seventh account on the creation instruction: a writable
  account of a third party that neither instruction needs.
\<close>

definition demo_tx_extra_writable :: Transaction where
  "demo_tx_extra_writable =
     demo_tx\<lparr>instructions :=
               [(demo_createAta USDC_MINT)
                  \<lparr>keys := keys (demo_createAta USDC_MINT) @ [meta ''Mallory'' False True]\<rparr>,
                demo_transfer USDC_MINT]\<rparr>"

definition demo_partialSign :: "Keypair \<Rightarrow> Transaction \<Rightarrow> string + Transaction" where
  "demo_partialSign kp t =
     (if find (\<lambda>p. publicKey p = kp_publicKey kp) (signatures t) = None
      then Inl (''unknown signer: '' @ kp_publicKey kp)
      else Inr (t\<lparr>signatures :=
                    map (\<lambda>p. if publicKey p = kp_publicKey kp
                              then p\<lparr>pair_signature := Some ''sig-relayer''\<rparr> else p)
                        (signatures t)\<rparr>))"

definition demo_from :: "string \<Rightarrow> string + Transaction" where
  "demo_from w =
     (if w = ''wire-unsigned'' then Inr demo_tx
      else if w = ''wire-signed'' then Inr demo_tx_signed
      else if w = ''wire-three'' then Inr demo_tx_three
      else if w = ''wire-other-mint'' then Inr demo_tx_other_mint
      else if w = ''wire-extra-signer'' then Inr demo_tx_extra_signer
      else if w = ''wire-extra-writable'' then Inr demo_tx_extra_writable
      else Inl ''invalid wire transaction'')"

definition demo_serialize :: "Transaction \<Rightarrow> string + string" where
  "demo_serialize t =
     (if list_all (\<lambda>p. pair_signature p \<noteq> None) (signatures t)
      then Inr ''wire-signed'' else Inl ''Signature verification failed'')"

definition demo_lib :: Lib where
  "demo_lib =
     \<lparr>Transaction_from = demo_from, serialize = demo_serialize,
      partialSign = demo_partialSign, getAssociatedTokenAddressSync = demo_ata\<rparr>"

definition demo_db :: Database where
  "demo_db = addUser (addUser empty_db ''Alice'' ''Sender'') ''Bob'' ''Recipient''"

definition demo_record :: "TransactionStatus \<Rightarrow> TransactionRecord" where
  "demo_record st =
     \<lparr>signature = ''sig-alice'', serializedTransaction = ''wire-signed'',
      sender = ''Alice'', recipient = ''Bob'', amount = 10000000,
      lastValidBlockHeight = Num 1000, status = st, createdAt = 0, updatedAt = 0\<rparr>"

definition demo_store :: "TransactionStatus \<Rightarrow> Database" where
  "demo_store st = demo_db\<lparr>transactions := [(''sig-alice'', demo_record st)]\<rparr>"

text \<open>The same ledger, or the same clock reading, for every record of a cycle.\<close>

definition always :: "'a \<Rightarrow> string \<Rightarrow> 'a" where
  "always x ref = x"

text \<open>A ledger that knows the transaction and reports the given confirmation status.\<close>

definition ledger_reports :: "string \<Rightarrow> Connection" where
  "ledger_reports c =
     \<lparr>getSignatureStatuses = (\<lambda>sg history. Inr (Some \<lparr>confirmationStatus = Some c\<rparr>)),
      isBlockhashValid = (\<lambda>b. Inr True),
      sendRawTransaction = (\<lambda>raw. Inr ''sent''),
      getEpochInfo = Inr (Some 0),
      conn_getTransaction = (\<lambda>sg. Inr (Some ''found''))\<rparr>"

text \<open>
  A ledger that has no status for the transaction, with or without history search,
  whose blockhash has expired, at the given finalized height and with the given answer
  of the direct lookup.
\<close>

definition ledger_silent :: "int option \<Rightarrow> string + string option \<Rightarrow> Connection" where
  "ledger_silent height lookup =
     \<lparr>getSignatureStatuses = (\<lambda>sg history. Inr None),
      isBlockhashValid = (\<lambda>b. Inr False),
      sendRawTransaction = (\<lambda>raw. Inl ''Blockhash not found''),
      getEpochInfo = Inr height,
      conn_getTransaction = (\<lambda>sg. lookup)\<rparr>"


text \<open>
  Runs. In each, both users are registered and the transfer is submitted. Then:
  two cycles overlap, the second sees the transfer finalized, the first comes back
  late with \<open>processed\<close>, and a third cycle sees it finalized again;
  or two overlapping cycles both find the transfer gone;
  or the transfer was submitted with \<open>NaN\<close> as its last valid block height and one
  cycle finds it gone at finalized height 0.
\<close>

definition demo_setup :: "Action list" where
  "demo_setup =
     [Register ''Alice'' ''Sender'', Register ''Bob'' ''Recipient'',
      Submit ''wire-unsigned'' (Num 1000) 0]"

definition demo_finalized_once :: "Action list" where
  "demo_finalized_once =
     demo_setup @ [StartCycle, StartCycle, Advance 1 (ledger_reports ''finalized'') 10]"

definition demo_set_back :: "Action list" where
  "demo_set_back = demo_finalized_once @ [Advance 0 (ledger_reports ''processed'') 11]"

definition demo_late_processed :: "Action list" where
  "demo_late_processed =
     demo_set_back @ [StartCycle, Advance 2 (ledger_reports ''finalized'') 12]"




section \<open>Evaluation of the worked scenario\<close>

lemmas demo_defs = demo_lib_def demo_from_def demo_serialize_def demo_partialSign_def
  demo_ata_def the_ata_def demo_keypair_def meta_def demo_createAta_def demo_transfer_def
  demo_tx_def demo_tx_signed_def demo_tx_three_def demo_tx_other_mint_def
  demo_tx_extra_signer_def demo_tx_extra_writable_def demo_db_def demo_record_def demo_store_def empty_db_def addUser_def

lemmas gate_defs = relayTransaction_def validateTransaction_def validateParties_def
  validateTransferInstruction_def validateCreateAtaInstruction_def
  getRecipientFromCreateAta_def isUserRegistered_def isCompliant_def getTransaction_def
  addTransaction_def tx_signature_def readBigUInt64LE1_def USDC_MINT_def TOKEN_PROGRAM_ID_def
  ASSOCIATED_TOKEN_PROGRAM_ID_def TRANSFER_CHECKED_DISCRIMINATOR_def
  CREATE_IDEMPOTENT_ATA_DISCRIMINATOR_def

lemma show_nat_digit: "n < 10 \<Longrightarrow> show_nat n = [digit_char n]"
  by (simp add: show_nat.simps)

lemma demo_validates:
  "validateTransaction demo_lib demo_keypair demo_db demo_tx
     = Ok \<lparr>v_sender = ''Alice'', v_recipient = ''Bob'', v_amount = 10000000\<rparr>"
  by (simp add: demo_defs gate_defs Let_def)

lemma demo_admitted:
  "relayTransaction demo_lib demo_keypair 0 demo_db ''wire-unsigned'' (Num 1000)
     = (Success ''sig-alice'', demo_store CREATED)"
  by (simp add: demo_defs gate_defs Let_def)

lemma demo_three_rejected:
  "relayTransaction demo_lib demo_keypair 0 demo_db ''wire-three'' (Num 1000)
     = (Failure ''Expected 2 instructions, got 3'', demo_db)"
  by (simp add: demo_defs gate_defs Let_def show_nat_digit digit_char_def)

lemma demo_other_mint_rejected:
  "relayTransaction demo_lib demo_keypair 0 demo_db ''wire-other-mint'' (Num 1000)
     = (Failure ''Transfer must be USDC token'', demo_db)"
  by (simp add: demo_defs gate_defs Let_def)

lemma demo_extra_signer_rejected:
  "relayTransaction demo_lib demo_keypair 0 demo_db ''wire-extra-signer'' (Num 1000)
     = (Failure ''Unexpected signer: Mallory'', demo_db)"
  by (simp add: demo_defs gate_defs Let_def)

section \<open>The store\<close>

lemma list_all_update:
  "list_all P al \<Longrightarrow> P (k, v) \<Longrightarrow> list_all P (AList.update k v al)"
  by (induction al) auto

lemma update_present_keys:
  "map_of al k = Some r \<Longrightarrow> map fst (AList.update k v al) = map fst al"
  by (induction al) (auto split: if_splits)

lemma users_updateTransactionStatus [simp]:
  "users (updateTransactionStatus db k s now) = users db"
  by (simp add: updateTransactionStatus_def split: option.splits)

lemma keys_updateTransactionStatus [simp]:
  "map fst (transactions (updateTransactionStatus db k s now)) = map fst (transactions db)"
  by (simp add: updateTransactionStatus_def update_present_keys split: option.splits)

lemma getTransaction_updateTransactionStatus:
  "getTransaction (updateTransactionStatus db k s now) k'
     = (if k' = k
        then map_option (\<lambda>r. r\<lparr>status := s, updatedAt := now\<rparr>) (getTransaction db k)
        else getTransaction db k')"
  by (simp add: updateTransactionStatus_def getTransaction_def update_conv'
           split: option.splits)

lemma wf_db_updateTransactionStatus:
  assumes "wf_db db"
  shows "wf_db (updateTransactionStatus db k s now)"
proof (cases "map_of (transactions db) k")
  case None
  with assms show ?thesis by (simp add: updateTransactionStatus_def)
next
  case (Some r)
  then have "(k, r) \<in> set (transactions db)" by (rule map_of_SomeD)
  with assms have "signature r = k"
    by (auto simp add: wf_db_def list_all_iff)
  with assms Some show ?thesis
    by (simp add: wf_db_def updateTransactionStatus_def distinct_update list_all_update)
qed

lemma wf_db_addUser: "wf_db db \<Longrightarrow> wf_db (addUser db pk nm)"
  by (simp add: wf_db_def addUser_def)

lemma wf_db_addTransaction: "wf_db db \<Longrightarrow> wf_db (addTransaction db rec)"
  by (simp add: wf_db_def addTransaction_def distinct_update list_all_update)

lemma wf_db_empty: "wf_db empty_db"
  by (simp add: wf_db_def empty_db_def)

lemma wf_db_stored_signature:
  "wf_db db \<Longrightarrow> getTransaction db k = Some r \<Longrightarrow> signature r = k"
  by (auto simp add: wf_db_def getTransaction_def list_all_iff dest: map_of_SomeD)

lemma stored_once:
  assumes "distinct (map fst al)" and "map_of al k = Some r"
  shows "length (filter (\<lambda>(k', r'). k' = k) al) = 1"
  using assms
proof (induction al)
  case Nil
  then show ?case by simp
next
  case (Cons a al)
  obtain k' r' where a: "a = (k', r')" by (cases a)
  show ?case
  proof (cases "k' = k")
    case True
    with Cons.prems a have "k \<notin> fst ` set al" by simp
    then have "\<forall>x \<in> set al. fst x \<noteq> k" by force
    then have "filter (\<lambda>(k', r'). k' = k) al = []"
      by (auto simp add: filter_empty_conv)
    with True a show ?thesis by simp
  next
    case False
    with Cons a show ?thesis by simp
  qed
qed

section \<open>One record in one cycle\<close>

text \<open>
  Processing a stored record leaves the state as it was, or writes one status to the
  record's entry, with a receipt exactly when that status is \<open>FINALIZED\<close>.
\<close>

lemma handleExistingStatus_cases:
  "handleExistingStatus now (ref, tx) c (db, sent) = (db, sent)
   \<or> (\<exists>s. s \<noteq> FINALIZED \<and> s \<noteq> FAILED
          \<and> handleExistingStatus now (ref, tx) c (db, sent)
              = (updateTransactionStatus db (signature tx) s now, sent))
   \<or> (status tx \<noteq> FINALIZED
       \<and> handleExistingStatus now (ref, tx) c (db, sent)
           = (updateTransactionStatus db (signature tx) FINALIZED now,
              sent @ [case getTransaction
                             (updateTransactionStatus db (signature tx) FINALIZED now) ref of
                        None \<Rightarrow> tx | Some r \<Rightarrow> r]))"
proof (cases c)
  case None
  then show ?thesis by (simp add: handleExistingStatus_def)
next
  case (Some cs)
  consider "cs = ''processed''" | "cs = ''confirmed''" | "cs = ''finalized''"
    | "cs \<noteq> ''processed''" "cs \<noteq> ''confirmed''" "cs \<noteq> ''finalized''"
    by blast
  then show ?thesis
  proof cases
    case 1
    have "PROCESSED \<noteq> FINALIZED \<and> PROCESSED \<noteq> FAILED" by simp
    with 1 Some show ?thesis
      by (cases "status tx = PROCESSED") (auto simp add: handleExistingStatus_def)
  next
    case 2
    have "CONFIRMED \<noteq> FINALIZED \<and> CONFIRMED \<noteq> FAILED" by simp
    with 2 Some show ?thesis
      by (cases "status tx \<noteq> CONFIRMED \<and> status tx \<noteq> FINALIZED")
         (auto simp add: handleExistingStatus_def)
  next
    case 3
    with Some show ?thesis
      by (cases "status tx = FINALIZED")
         (simp_all add: handleExistingStatus_def Let_def sendReceipt_def)
  next
    case 4
    with Some show ?thesis by (simp add: handleExistingStatus_def)
  qed
qed
lemma handleExpiredBlockhash_cases:
  "handleExpiredBlockhash conn now (ref, tx) sg (db, sent) = Inr (db, sent)
   \<or> (\<exists>e. handleExpiredBlockhash conn now (ref, tx) sg (db, sent) = Inl e)
   \<or> handleExpiredBlockhash conn now (ref, tx) sg (db, sent)
        = Inr (updateTransactionStatus db (signature tx) FAILED now, sent)"
  by (simp add: handleExpiredBlockhash_def Let_def split: sum.splits option.splits)

lemma handleNullStatus_cases:
  "handleNullStatus lib conn now (ref, tx) t sg (db, sent) = Inr (db, sent)
   \<or> (\<exists>e. handleNullStatus lib conn now (ref, tx) t sg (db, sent) = Inl e)
   \<or> handleNullStatus lib conn now (ref, tx) t sg (db, sent)
        = Inr (updateTransactionStatus db (signature tx) FAILED now, sent)
   \<or> (status tx = CREATED
       \<and> handleNullStatus lib conn now (ref, tx) t sg (db, sent)
           = Inr (updateTransactionStatus db (signature tx) SUBMITTED now, sent))"
proof (cases "isBlockhashValid conn (recentBlockhash t)")
  case (Inl e)
  then show ?thesis by (simp add: handleNullStatus_def)
next
  case (Inr valid)
  show ?thesis
  proof (cases valid)
    case True
    with Inr show ?thesis
      by (simp add: handleNullStatus_def split: sum.splits)
  next
    case False
    with Inr have "handleNullStatus lib conn now (ref, tx) t sg (db, sent)
                     = handleExpiredBlockhash conn now (ref, tx) sg (db, sent)"
      by (simp add: handleNullStatus_def)
    with handleExpiredBlockhash_cases[of conn now ref tx sg db sent]
    show ?thesis by presburger
  qed
qed

lemma processGuarded_absent:
  "getTransaction db ref = None \<Longrightarrow> processGuarded lib conn now ref (db, sent) = (db, sent)"
  by (simp add: processGuarded_def processTransaction_def)

lemma processGuarded_cases:
  assumes "getTransaction db ref = Some tx"
  shows "processGuarded lib conn now ref (db, sent) = (db, sent)
   \<or> (\<exists>s. s \<noteq> FINALIZED
          \<and> processGuarded lib conn now ref (db, sent)
              = (updateTransactionStatus db (signature tx) s now, sent))
   \<or> (status tx \<noteq> FINALIZED
       \<and> processGuarded lib conn now ref (db, sent)
           = (updateTransactionStatus db (signature tx) FINALIZED now,
              sent @ [case getTransaction
                             (updateTransactionStatus db (signature tx) FINALIZED now) ref of
                        None \<Rightarrow> tx | Some r \<Rightarrow> r]))"
proof (cases "Transaction_from lib (serializedTransaction tx)")
  case (Inl e)
  with assms show ?thesis by (simp add: processGuarded_def processTransaction_def)
next
  case (Inr t)
  show ?thesis
  proof (cases "tx_signature t")
    case None
    with assms Inr show ?thesis by (simp add: processGuarded_def processTransaction_def)
  next
    case (Some sg)
    show ?thesis
    proof (cases "getSignatureStatuses conn sg False")
      case (Inl e)
      with assms Inr Some show ?thesis
        by (simp add: processGuarded_def processTransaction_def)
    next
      case st: (Inr found)
      show ?thesis
      proof (cases found)
        case None
        with assms Inr Some st
        have "processGuarded lib conn now ref (db, sent)
                = (case handleNullStatus lib conn now (ref, tx) t sg (db, sent) of
                     Inl e \<Rightarrow> (db, sent) | Inr st' \<Rightarrow> st')"
          by (simp add: processGuarded_def processTransaction_def)
        moreover have "FAILED \<noteq> FINALIZED \<and> SUBMITTED \<noteq> FINALIZED" by simp
        ultimately show ?thesis
          using handleNullStatus_cases[of lib conn now ref tx t sg db sent]
          by (elim disjE exE conjE) (simp, simp, metis old.sum.simps(6), metis old.sum.simps(6))
      next
        case (Some f)
        with assms Inr \<open>tx_signature t = Some sg\<close> st
        have "processGuarded lib conn now ref (db, sent)
                = handleExistingStatus now (ref, tx) (confirmationStatus f) (db, sent)"
          by (simp add: processGuarded_def processTransaction_def)
        with handleExistingStatus_cases[of now ref tx "confirmationStatus f" db sent]
        show ?thesis by metis
      qed
    qed
  qed
qed

lemma processGuarded_wf:
  assumes "wf_db db"
  shows "wf_db (fst (processGuarded lib conn now ref (db, sent)))"
proof (cases "getTransaction db ref")
  case None
  with assms show ?thesis by (simp add: processGuarded_absent)
next
  case (Some tx)
  from processGuarded_cases[OF Some, of lib conn now sent] assms
  show ?thesis by (auto simp add: wf_db_updateTransactionStatus)
qed

lemma processGuarded_users:
  "users (fst (processGuarded lib conn now ref (db, sent))) = users db"
proof (cases "getTransaction db ref")
  case None
  then show ?thesis by (simp add: processGuarded_absent)
next
  case (Some tx)
  from processGuarded_cases[OF Some, of lib conn now sent]
  show ?thesis by auto
qed

lemma processGuarded_keys:
  "map fst (transactions (fst (processGuarded lib conn now ref (db, sent))))
     = map fst (transactions db)"
proof (cases "getTransaction db ref")
  case None
  then show ?thesis by (simp add: processGuarded_absent)
next
  case (Some tx)
  from processGuarded_cases[OF Some, of lib conn now sent]
  show ?thesis by auto
qed

text \<open>In a well-formed store, processing one record touches no other record.\<close>

lemma processGuarded_frame:
  assumes "wf_db db" and "k \<noteq> ref"
  shows "getTransaction (fst (processGuarded lib conn now ref (db, sent))) k
           = getTransaction db k"
proof (cases "getTransaction db ref")
  case None
  then show ?thesis by (simp add: processGuarded_absent)
next
  case (Some tx)
  with assms have "signature tx = ref" by (simp add: wf_db_stored_signature)
  with processGuarded_cases[OF Some, of lib conn now sent] assms(2)
  show ?thesis by (auto simp add: getTransaction_updateTransactionStatus)
qed

lemma processGuarded_frame_receipts:
  assumes "wf_db db" and "k \<noteq> ref"
  shows "receipts_for k (snd (processGuarded lib conn now ref (db, sent)))
           = receipts_for k sent"
proof (cases "getTransaction db ref")
  case None
  then show ?thesis by (simp add: processGuarded_absent)
next
  case (Some tx)
  with assms have sg: "signature tx = ref" by (simp add: wf_db_stored_signature)
  with Some have "getTransaction (updateTransactionStatus db (signature tx) FINALIZED now) ref
                    = Some (tx\<lparr>status := FINALIZED, updatedAt := now\<rparr>)"
    by (simp add: getTransaction_updateTransactionStatus)
  with processGuarded_cases[OF Some, of lib conn now sent] assms(2) sg
  show ?thesis by (auto simp add: receipts_for_def)
qed

text \<open>
  The status of the processed record becomes \<open>FINALIZED\<close> exactly when a receipt for
  it is sent, provided it was not \<open>FINALIZED\<close> before.
\<close>

lemma processGuarded_own_receipt:
  assumes "wf_db db" and "\<not> finalized_at db ref"
  shows "receipts_for ref (snd (processGuarded lib conn now ref (db, sent)))
           = receipts_for ref sent
             + (if finalized_at (fst (processGuarded lib conn now ref (db, sent))) ref
                then 1 else 0)"
proof (cases "getTransaction db ref")
  case None
  then show ?thesis by (simp add: processGuarded_absent finalized_at_def)
next
  case (Some tx)
  with assms have sg: "signature tx = ref" by (simp add: wf_db_stored_signature)
  from Some assms(2) have nf: "status tx \<noteq> FINALIZED" by (simp add: finalized_at_def)
  from processGuarded_cases[OF Some, of lib conn now sent]
  consider (same) "processGuarded lib conn now ref (db, sent) = (db, sent)"
    | (wrote) s where "s \<noteq> FINALIZED"
        "processGuarded lib conn now ref (db, sent)
           = (updateTransactionStatus db (signature tx) s now, sent)"
    | (fin) "processGuarded lib conn now ref (db, sent)
           = (updateTransactionStatus db (signature tx) FINALIZED now,
              sent @ [case getTransaction
                             (updateTransactionStatus db (signature tx) FINALIZED now) ref of
                        None \<Rightarrow> tx | Some r \<Rightarrow> r])"
    by blast
  then show ?thesis
  proof cases
    case same
    with Some nf show ?thesis by (simp add: finalized_at_def)
  next
    case wrote
    with Some sg show ?thesis
      by (simp add: finalized_at_def getTransaction_updateTransactionStatus)
  next
    case fin
    with Some sg show ?thesis
      by (simp add: finalized_at_def getTransaction_updateTransactionStatus receipts_for_def)
  qed
qed

lemma processGuarded_receipts_match:
  assumes "wf_db db" and "receipts_match (db, sent)" and "\<not> finalized_at db ref"
  shows "receipts_match (processGuarded lib conn now ref (db, sent))"
  unfolding receipts_match_def
proof
  fix k
  show "receipts_for k (snd (processGuarded lib conn now ref (db, sent)))
          = (if finalized_at (fst (processGuarded lib conn now ref (db, sent))) k
             then 1 else 0)"
  proof (cases "k = ref")
    case True
    from assms(2,3) have "receipts_for ref sent = 0" by (simp add: receipts_match_def)
    with processGuarded_own_receipt[OF assms(1,3), of lib conn now sent] True
    show ?thesis by simp
  next
    case False
    from assms(2) have "receipts_for k sent = (if finalized_at db k then 1 else 0)"
      by (simp add: receipts_match_def)
    with processGuarded_frame[OF assms(1) False, of lib conn now sent]
      processGuarded_frame_receipts[OF assms(1) False, of lib conn now sent]
    show ?thesis by (simp add: finalized_at_def)
  qed
qed

section \<open>One cycle that runs alone\<close>

text \<open>
  \<open>processTransactions\<close> is a whole cycle with nothing else happening to the store
  from its snapshot to its last record. The lemmas of this section are about such a
  cycle.
\<close>

lemma processEach_wf:
  "wf_db (fst st) \<Longrightarrow> wf_db (fst (processEach lib conns clock refs st))"
proof (induction refs arbitrary: st)
  case Nil
  then show ?case by simp
next
  case (Cons r refs)
  obtain db sent where st: "st = (db, sent)" by (cases st)
  with Cons.prems have "wf_db (fst (processGuarded lib (conns r) (clock r) r st))"
    by (simp add: processGuarded_wf)
  then show ?case by (simp add: Cons.IH)
qed

lemma processEach_users:
  "users (fst (processEach lib conns clock refs st)) = users (fst st)"
proof (induction refs arbitrary: st)
  case Nil
  then show ?case by simp
next
  case (Cons r refs)
  obtain db sent where st: "st = (db, sent)" by (cases st)
  then show ?case by (simp add: Cons.IH processGuarded_users)
qed

lemma processEach_keys:
  "map fst (transactions (fst (processEach lib conns clock refs st)))
     = map fst (transactions (fst st))"
proof (induction refs arbitrary: st)
  case Nil
  then show ?case by simp
next
  case (Cons r refs)
  obtain db sent where st: "st = (db, sent)" by (cases st)
  then show ?case by (simp add: Cons.IH processGuarded_keys)
qed

text \<open>A record that is not visited in a cycle is the same record after the cycle.\<close>

lemma processEach_untouched:
  assumes "wf_db (fst st)" and "k \<notin> set refs"
  shows "getTransaction (fst (processEach lib conns clock refs st)) k
           = getTransaction (fst st) k"
  using assms
proof (induction refs arbitrary: st)
  case Nil
  then show ?case by simp
next
  case (Cons r refs)
  obtain db sent where st: "st = (db, sent)" by (cases st)
  from Cons.prems st have wf': "wf_db (fst (processGuarded lib (conns r) (clock r) r st))"
    by (simp add: processGuarded_wf)
  from Cons.prems have "k \<noteq> r" and "k \<notin> set refs" by auto
  with Cons.IH[OF wf'] Cons.prems(1) st show ?case
    by (simp add: processGuarded_frame)
qed

text \<open>
  A record that is visited in a cycle is, after the cycle, what processing it made of
  it, in a well-formed state that still held it as it was when the cycle began.
\<close>

lemma processEach_visited:
  assumes "wf_db (fst st)" and "distinct refs" and "ref \<in> set refs"
  shows "\<exists>db' sent'. wf_db db'
           \<and> getTransaction db' ref = getTransaction (fst st) ref
           \<and> getTransaction (fst (processEach lib conns clock refs st)) ref
               = getTransaction
                   (fst (processGuarded lib (conns ref) (clock ref) ref (db', sent'))) ref"
  using assms
proof (induction refs arbitrary: st)
  case Nil
  then show ?case by simp
next
  case (Cons r refs)
  obtain db sent where st: "st = (db, sent)" by (cases st)
  from Cons.prems st have wf': "wf_db (fst (processGuarded lib (conns r) (clock r) r st))"
    by (simp add: processGuarded_wf)
  show ?case
  proof (cases "r = ref")
    case True
    with Cons.prems have "ref \<notin> set refs" by simp
    from processEach_untouched[OF wf' this] True st Cons.prems(1)
    show ?thesis by auto
  next
    case False
    with Cons.prems have "distinct refs" "ref \<in> set refs" by auto
    from Cons.IH[OF wf' this] obtain db' sent' where
      "wf_db db'"
      "getTransaction db' ref
         = getTransaction (fst (processGuarded lib (conns r) (clock r) r st)) ref"
      "getTransaction
         (fst (processEach lib conns clock refs (processGuarded lib (conns r) (clock r) r st)))
         ref
         = getTransaction
             (fst (processGuarded lib (conns ref) (clock ref) ref (db', sent'))) ref"
      by blast
    moreover from False Cons.prems(1) st
    have "getTransaction (fst (processGuarded lib (conns r) (clock r) r st)) ref
            = getTransaction (fst st) ref"
      by (simp add: processGuarded_frame)
    ultimately show ?thesis by auto
  qed
qed

lemma processEach_receipts_match:
  assumes "wf_db (fst st)" and "receipts_match st" and "distinct refs"
    and "\<forall>r \<in> set refs. \<not> finalized_at (fst st) r"
  shows "receipts_match (processEach lib conns clock refs st)"
  using assms
proof (induction refs arbitrary: st)
  case Nil
  then show ?case by simp
next
  case (Cons r refs)
  obtain db sent where st: "st = (db, sent)" by (cases st)
  let ?st' = "processGuarded lib (conns r) (clock r) r st"
  from Cons.prems st have wf': "wf_db (fst ?st')" by (simp add: processGuarded_wf)
  from Cons.prems st have rm': "receipts_match ?st'"
    by (simp add: processGuarded_receipts_match)
  from Cons.prems have d: "distinct refs" by simp
  have "\<forall>q \<in> set refs. \<not> finalized_at (fst ?st') q"
  proof
    fix q assume q: "q \<in> set refs"
    with Cons.prems have "q \<noteq> r" by auto
    with Cons.prems(1) st have "getTransaction (fst ?st') q = getTransaction (fst st) q"
      by (simp add: processGuarded_frame)
    with q Cons.prems(4) show "\<not> finalized_at (fst ?st') q"
      by (simp add: finalized_at_def)
  qed
  from Cons.IH[OF wf' rm' d this] show ?case by simp
qed

lemma nonterminal_refs:
  assumes "wf_db db"
  shows "ref \<in> set (map fst (getNonTerminalTransactions db))
           \<longleftrightarrow> (\<exists>tx. getTransaction db ref = Some tx \<and> status tx \<notin> set terminalStates)"
proof -
  from assms have d: "distinct (map fst (transactions db))" by (simp add: wf_db_def)
  show ?thesis
    by (force simp add: getNonTerminalTransactions_def getTransaction_def
                        map_of_eq_Some_iff[OF d])
qed

lemma nonterminal_refs_distinct:
  "wf_db db \<Longrightarrow> distinct (map fst (getNonTerminalTransactions db))"
  by (simp add: wf_db_def getNonTerminalTransactions_def distinct_map_filter)

lemma processTransactions_wf:
  "wf_db (fst st) \<Longrightarrow> wf_db (fst (processTransactions lib conns clock st))"
  by (simp add: processTransactions_def processEach_wf)

lemma processTransactions_receipts_match:
  assumes "wf_db (fst st)" and "receipts_match st"
  shows "receipts_match (processTransactions lib conns clock st)"
  unfolding processTransactions_def
proof (rule processEach_receipts_match[OF assms])
  from assms(1) show "distinct (map fst (getNonTerminalTransactions (fst st)))"
    by (rule nonterminal_refs_distinct)
  show "\<forall>r \<in> set (map fst (getNonTerminalTransactions (fst st))). \<not> finalized_at (fst st) r"
  proof
    fix r assume "r \<in> set (map fst (getNonTerminalTransactions (fst st)))"
    with nonterminal_refs[OF assms(1), of r] show "\<not> finalized_at (fst st) r"
      by (auto simp add: finalized_at_def terminalStates_def)
  qed
qed

text \<open>A record that is terminal when such a cycle starts is not touched by it.\<close>

lemma processTransactions_terminal:
  assumes "wf_db (fst st)" and "getTransaction (fst st) k = Some tx"
    and "status tx \<in> set terminalStates"
  shows "getTransaction (fst (processTransactions lib conns clock st)) k = Some tx"
proof -
  from nonterminal_refs[OF assms(1), of k] assms(2,3)
  have "k \<notin> set (map fst (getNonTerminalTransactions (fst st)))" by auto
  from processEach_untouched[OF assms(1) this] assms(2)
  show ?thesis by (simp add: processTransactions_def)
qed

lemma processTransactions_visited:
  assumes "wf_db (fst st)" and "getTransaction (fst st) ref = Some tx"
    and "status tx \<notin> set terminalStates"
  shows "\<exists>db' sent'. wf_db db'
           \<and> getTransaction db' ref = Some tx
           \<and> getTransaction (fst (processTransactions lib conns clock st)) ref
               = getTransaction
                   (fst (processGuarded lib (conns ref) (clock ref) ref (db', sent'))) ref"
proof -
  from nonterminal_refs[OF assms(1), of ref] assms(2,3)
  have "ref \<in> set (map fst (getNonTerminalTransactions (fst st)))" by auto
  from processEach_visited[OF assms(1) nonterminal_refs_distinct[OF assms(1)] this,
         of lib conns clock] assms(2)
  show ?thesis by (simp add: processTransactions_def)
qed

section \<open>The admission gate: what an accepted transaction looks like\<close>

lemma validateCreateAta_ok:
  assumes "validateCreateAtaInstruction ix = Inr target"
  shows "6 \<le> length (keys ix) \<and> pubkey (keys ix ! 3) = USDC_MINT
         \<and> target = pubkey (keys ix ! 1)"
  using assms
  by (simp add: validateCreateAtaInstruction_def Let_def split: if_splits)

lemma validateTransfer_ok:
  assumes "validateTransferInstruction lib ix r = Ok v"
  shows "4 \<le> length (keys ix) \<and> pubkey (keys ix ! 1) = USDC_MINT
         \<and> v_sender v = pubkey (keys ix ! 3) \<and> v_recipient v = r"
  using assms
  by (auto simp add: validateTransferInstruction_def Let_def split: if_splits sum.splits)

lemma validateParties_ok:
  assumes "validateParties keypair db t v = Ok v'"
  shows "v' = v \<and> isUserRegistered db (v_sender v) \<and> isUserRegistered db (v_recipient v)
         \<and> (\<forall>p \<in> set (signatures t). publicKey p \<in> {kp_publicKey keypair, v_sender v})"
  using assms
  by (auto simp add: validateParties_def find_None_iff split: if_splits option.splits)

lemma validate_ok_shape:
  assumes "validateTransaction lib keypair db t = Ok v"
  shows "length (instructions t) = 2
     \<and> 6 \<le> length (keys (instructions t ! 0))
     \<and> pubkey (keys (instructions t ! 0) ! 3) = USDC_MINT
     \<and> 4 \<le> length (keys (instructions t ! 1))
     \<and> pubkey (keys (instructions t ! 1) ! 1) = USDC_MINT
     \<and> v_sender v = pubkey (keys (instructions t ! 1) ! 3)
     \<and> v_recipient v = pubkey (keys (instructions t ! 0) ! 2)
     \<and> feePayer t = Some (kp_publicKey keypair)
     \<and> (\<forall>p \<in> set (signatures t). publicKey p \<in> {kp_publicKey keypair, v_sender v})"
proof -
  from assms have len: "length (instructions t) = 2"
    and fp: "feePayer t = Some (kp_publicKey keypair)"
    by (auto simp add: validateTransaction_def Let_def split: if_splits)
  from assms len fp obtain target where
    c: "validateCreateAtaInstruction (instructions t ! 0) = Inr target"
    by (auto simp add: validateTransaction_def Let_def split: sum.splits)
  from assms len fp c obtain tr where
    tr: "validateTransferInstruction lib (instructions t ! 1)
           (getRecipientFromCreateAta (instructions t ! 0)) = Ok tr"
    by (auto simp add: validateTransaction_def Let_def split: outcome.splits)
  from assms len fp c tr have vp: "validateParties keypair db t tr = Ok v"
    by (auto simp add: validateTransaction_def Let_def split: sum.splits if_splits)
  from validateParties_ok[OF vp] have eq: "v = tr"
    and sg: "\<forall>p \<in> set (signatures t). publicKey p \<in> {kp_publicKey keypair, v_sender tr}"
    by auto
  from validateCreateAta_ok[OF c] validateTransfer_ok[OF tr] len fp eq sg
  show ?thesis by (simp add: getRecipientFromCreateAta_def)
qed

lemma relay_rejects_invalid:
  assumes "Transaction_from lib serialized = Inr t"
    and "\<And>v. validateTransaction lib keypair db t \<noteq> Ok v"
  shows "\<exists>e. relayTransaction lib keypair now db serialized lastValid = (Failure e, db)"
proof (cases "validateTransaction lib keypair db t")
  case (Ok v)
  with assms(2) show ?thesis by blast
next
  case (Reject e)
  with assms(1) show ?thesis by (simp add: relayTransaction_def)
next
  case (Throw e)
  with assms(1) show ?thesis by (simp add: relayTransaction_def)
qed

lemma validateCreateAta_not_compliance:
  "validateCreateAtaInstruction ix \<noteq> Inl ''Sender is not compliant''
   \<and> validateCreateAtaInstruction ix \<noteq> Inl ''Recipient is not compliant''"
  by (simp add: validateCreateAtaInstruction_def Let_def)

lemma validateTransfer_not_compliance:
  "validateTransferInstruction lib ix r \<noteq> Reject ''Sender is not compliant''
   \<and> validateTransferInstruction lib ix r \<noteq> Reject ''Recipient is not compliant''"
  by (simp add: validateTransferInstruction_def Let_def split: sum.splits)

lemma validateParties_not_compliance:
  "validateParties kp db t v \<noteq> Reject ''Sender is not compliant''
   \<and> validateParties kp db t v \<noteq> Reject ''Recipient is not compliant''"
  by (simp add: validateParties_def isCompliant_def split: option.splits)

section \<open>Claims about the admission gate\<close>

text \<open>
  C3 fails on the code in its second half. The transfer below carries, on its
  creation instruction, a writable account of a third party that is neither the
  relayer nor the sender (nor an account that either instruction uses), and the gate
  admits it and stores the record: \<open>validateTransaction\<close> compares the entries of
  \<open>transaction.signatures\<close> with the relayer and the sender and never reads
  \<open>isWritable\<close>.
\<close>

theorem C3_third_party_writable_admitted:
  "Transaction_from demo_lib ''wire-extra-writable'' = Inr demo_tx_extra_writable
   \<and> keys (instructions demo_tx_extra_writable ! 0) ! 6
       = \<lparr>pubkey = ''Mallory'', isSigner = False, isWritable = True\<rparr>
   \<and> ''Mallory'' \<notin> {kp_publicKey demo_keypair, ''Alice''}
   \<and> validateTransaction demo_lib demo_keypair demo_db demo_tx_extra_writable
       = Ok \<lparr>v_sender = ''Alice'', v_recipient = ''Bob'', v_amount = 10000000\<rparr>
   \<and> fst (relayTransaction demo_lib demo_keypair 0 demo_db ''wire-extra-writable'' (Num 1000))
       = Success ''sig-alice''
   \<and> getTransaction
        (snd (relayTransaction demo_lib demo_keypair 0 demo_db ''wire-extra-writable''
                (Num 1000))) ''sig-alice''
       \<noteq> None"
  by (simp add: demo_defs gate_defs Let_def)

text \<open>
  The half of the check that the code does make: a transaction is rejected, and the
  store left as it was, whenever an entry of its signature list carries a public key
  other than the relayer's and the sender's, the sender being the authority of the
  transfer (account 3 of the second instruction).
\<close>

lemma unexpected_signer_rejected:
  assumes "Transaction_from lib serialized = Inr t"
    and "p \<in> set (signatures t)"
    and "publicKey p \<notin> {kp_publicKey keypair, pubkey (keys (instructions t ! 1) ! 3)}"
  shows "\<exists>e. relayTransaction lib keypair now db serialized lastValid = (Failure e, db)"
proof (rule relay_rejects_invalid[OF assms(1)])
  fix v
  show "validateTransaction lib keypair db t \<noteq> Ok v"
  proof
    assume "validateTransaction lib keypair db t = Ok v"
    from validate_ok_shape[OF this] assms(2,3) show False by auto
  qed
qed

text \<open>
  C7: whenever \<open>relayTransaction\<close> answers with a failure (an undecodable
  transaction, a rejection by the validator, an error thrown by the library, a missing
  signature), the answer carries the reason and the store is the one it was given.
\<close>

theorem C7_rejection_leaves_store:
  assumes "fst (relayTransaction lib keypair now db serialized lastValid) = Failure e"
  shows "snd (relayTransaction lib keypair now db serialized lastValid) = db"
  using assms
  by (auto simp add: relayTransaction_def
           split: sum.splits outcome.splits option.splits if_splits)

theorem C7_rejection_leaves_store_witness:
  "fst (relayTransaction demo_lib demo_keypair 0 demo_db ''not a transaction'' (Num 1000))
     = Failure ''invalid wire transaction''
   \<and> snd (relayTransaction demo_lib demo_keypair 0 demo_db ''not a transaction'' (Num 1000))
     = demo_db"
proof -
  have a: "fst (relayTransaction demo_lib demo_keypair 0 demo_db ''not a transaction'' (Num 1000))
             = Failure ''invalid wire transaction''"
    by (simp add: relayTransaction_def demo_lib_def demo_from_def)
  from C7_rejection_leaves_store[OF a] a show ?thesis by simp
qed

text \<open>
  C8: a decoded transaction whose instruction count is not two is rejected with the
  structural reason that names the count, before any instruction is looked at, and the
  store is left as it was.
\<close>

theorem C8_instruction_count:
  assumes "Transaction_from lib serialized = Inr t"
    and "length (instructions t) \<noteq> 2"
  shows "validateTransaction lib keypair db t
           = Reject (''Expected 2 instructions, got '' @ show_nat (length (instructions t)))
         \<and> relayTransaction lib keypair now db serialized lastValid
           = (Failure (''Expected 2 instructions, got ''
                        @ show_nat (length (instructions t))), db)"
  using assms
  by (simp add: relayTransaction_def validateTransaction_def Let_def)

theorem C8_instruction_count_witness:
  "Transaction_from demo_lib ''wire-three'' = Inr demo_tx_three
   \<and> length (instructions demo_tx_three) = 3
   \<and> relayTransaction demo_lib demo_keypair 0 demo_db ''wire-three'' (Num 1000)
       = (Failure ''Expected 2 instructions, got 3'', demo_db)"
proof -
  have a: "Transaction_from demo_lib ''wire-three'' = Inr demo_tx_three"
    by (simp add: demo_lib_def demo_from_def)
  have b: "length (instructions demo_tx_three) = 3"
    by (simp add: demo_tx_three_def)
  from b have c: "length (instructions demo_tx_three) \<noteq> 2" by simp
  from C8_instruction_count[OF a c, of demo_keypair demo_db 0 "Num 1000"] a b
  show ?thesis by (simp add: show_nat_digit digit_char_def)
qed

text \<open>
  C9: a decoded transaction is rejected, and the store left as it was, if the mint
  account of its transfer instruction (account 1 of the second instruction) is not the
  USDC mint, or if the mint account of its account-creation instruction (account 3 of
  the first instruction) is not the USDC mint, whatever the rest of it is.
\<close>

theorem C9_other_mint_rejected:
  assumes "Transaction_from lib serialized = Inr t"
    and "(0 < length (instructions t) \<and> 3 < length (keys (instructions t ! 0))
            \<and> pubkey (keys (instructions t ! 0) ! 3) \<noteq> USDC_MINT)
         \<or> (1 < length (instructions t) \<and> 1 < length (keys (instructions t ! 1))
            \<and> pubkey (keys (instructions t ! 1) ! 1) \<noteq> USDC_MINT)"
  shows "\<exists>e. relayTransaction lib keypair now db serialized lastValid = (Failure e, db)"
proof (rule relay_rejects_invalid[OF assms(1)])
  fix v
  show "validateTransaction lib keypair db t \<noteq> Ok v"
  proof
    assume "validateTransaction lib keypair db t = Ok v"
    from validate_ok_shape[OF this] assms(2) show False by auto
  qed
qed

theorem C9_other_mint_rejected_witness:
  "Transaction_from demo_lib ''wire-other-mint'' = Inr demo_tx_other_mint
   \<and> 1 < length (instructions demo_tx_other_mint)
   \<and> 1 < length (keys (instructions demo_tx_other_mint ! 1))
   \<and> pubkey (keys (instructions demo_tx_other_mint ! 1) ! 1) \<noteq> USDC_MINT
   \<and> (\<exists>e. relayTransaction demo_lib demo_keypair 0 demo_db ''wire-other-mint'' (Num 1000)
            = (Failure e, demo_db))"
proof -
  have a: "Transaction_from demo_lib ''wire-other-mint'' = Inr demo_tx_other_mint"
    by (simp add: demo_lib_def demo_from_def)
  have b: "1 < length (instructions demo_tx_other_mint)
           \<and> 1 < length (keys (instructions demo_tx_other_mint ! 1))
           \<and> pubkey (keys (instructions demo_tx_other_mint ! 1) ! 1) \<noteq> USDC_MINT"
    by (simp add: demo_defs USDC_MINT_def)
  from C9_other_mint_rejected[OF a, of demo_keypair 0 demo_db "Num 1000"] a b
  show ?thesis by simp
qed

text \<open>
  C10: \<open>isCompliant\<close> answers true for every identity, so the validator never returns
  either of the two compliance rejections, for any library, relayer, store and
  transaction.
\<close>

theorem C10_compliance_never_rejects:
  "isCompliant db pk
   \<and> validateTransaction lib keypair db t \<noteq> Reject ''Sender is not compliant''
   \<and> validateTransaction lib keypair db t \<noteq> Reject ''Recipient is not compliant''"
  using validateCreateAta_not_compliance validateTransfer_not_compliance
    validateParties_not_compliance
  by (auto simp add: isCompliant_def validateTransaction_def Let_def
           split: sum.splits outcome.splits)

theorem C10_compliance_never_rejects_witness:
  "isCompliant empty_db ''Nobody''
   \<and> validateTransaction demo_lib demo_keypair empty_db demo_tx
       \<noteq> Reject ''Sender is not compliant''
   \<and> validateTransaction demo_lib demo_keypair empty_db demo_tx
       \<noteq> Reject ''Recipient is not compliant''
   \<and> validateTransaction demo_lib demo_keypair empty_db demo_tx
       = Reject ''Sender is not a registered user''"
proof -
  have "validateTransaction demo_lib demo_keypair empty_db demo_tx
          = Reject ''Sender is not a registered user''"
    by (simp add: demo_defs gate_defs Let_def)
  with C10_compliance_never_rejects[of empty_db "''Nobody''" demo_lib demo_keypair demo_tx]
  show ?thesis by simp
qed


section \<open>Claims about the reconciliation loop\<close>

lemmas workflow_defs = processTransactions_def processGuarded_def processTransaction_def
  handleNullStatus_def handleExpiredBlockhash_def handleExistingStatus_def
  getNonTerminalTransactions_def terminalStates_def updateTransactionStatus_def
  getTransaction_def sendReceipt_def heightOf_def tx_signature_def always_def

lemma demo_store_wf: "wf_db (demo_store st)"
  by (simp add: wf_db_def demo_store_def demo_record_def)

lemma demo_store_get: "getTransaction (demo_store st) ''sig-alice'' = Some (demo_record st)"
  by (simp add: getTransaction_def demo_store_def)

lemma demo_decodes:
  "Transaction_from demo_lib (serializedTransaction (demo_record st)) = Inr demo_tx_signed"
  by (simp add: demo_record_def demo_lib_def demo_from_def)

lemma demo_on_chain_signature: "tx_signature demo_tx_signed = Some ''sig-relayer''"
  by (simp add: tx_signature_def demo_tx_signed_def demo_tx_def)

text \<open>
  How the status of a record that is non-terminal when it is processed can change: it
  stays, becomes \<open>FAILED\<close>, moves to a stronger state, or goes from \<open>CONFIRMED\<close>
  to \<open>PROCESSED\<close>. The last is the only step against the ordering that such a
  record can take.
\<close>

lemma handleExistingStatus_status:
  assumes "getTransaction db ref = Some tx" and "signature tx = ref"
  shows "\<exists>tx'. getTransaction (fst (handleExistingStatus now (ref, tx) c (db, sent))) ref
                 = Some tx'
               \<and> (status tx' = status tx \<or> status tx' = PROCESSED
                    \<or> (status tx' = CONFIRMED \<and> status tx \<noteq> FINALIZED)
                    \<or> status tx' = FINALIZED)"
proof (cases c)
  case None
  with assms show ?thesis by (simp add: handleExistingStatus_def)
next
  case (Some cs)
  consider "cs = ''processed''" | "cs = ''confirmed''" | "cs = ''finalized''"
    | "cs \<noteq> ''processed''" "cs \<noteq> ''confirmed''" "cs \<noteq> ''finalized''"
    by blast
  then show ?thesis
  proof cases
    case 1
    with Some assms show ?thesis
      by (simp add: handleExistingStatus_def getTransaction_updateTransactionStatus)
  next
    case 2
    with Some assms show ?thesis
      by (simp add: handleExistingStatus_def getTransaction_updateTransactionStatus)
  next
    case 3
    with Some assms show ?thesis
      by (simp add: handleExistingStatus_def Let_def getTransaction_updateTransactionStatus)
  next
    case 4
    with Some assms show ?thesis by (simp add: handleExistingStatus_def)
  qed
qed

lemma handleNullStatus_status:
  assumes "getTransaction db ref = Some tx" and "signature tx = ref"
  shows "\<exists>tx'. getTransaction
                 (fst (case handleNullStatus lib conn now (ref, tx) t sg (db, sent) of
                         Inl e \<Rightarrow> (db, sent) | Inr st' \<Rightarrow> st')) ref = Some tx'
               \<and> (status tx' = status tx \<or> status tx' = FAILED
                    \<or> (status tx = CREATED \<and> status tx' = SUBMITTED))"
  using handleNullStatus_cases[of lib conn now ref tx t sg db sent] assms
  by (elim disjE exE conjE) (simp_all add: getTransaction_updateTransactionStatus)

lemma processGuarded_status:
  assumes "getTransaction db ref = Some tx" and "signature tx = ref"
    and "status tx \<notin> set terminalStates"
  shows "\<exists>tx'. getTransaction (fst (processGuarded lib conn now ref (db, sent))) ref = Some tx'
               \<and> (status tx' = status tx \<or> status tx' = FAILED
                    \<or> weaker (status tx) (status tx')
                    \<or> (status tx = CONFIRMED \<and> status tx' = PROCESSED))"
proof -
  have fwd: "\<And>s'. s' = status tx \<or> s' = PROCESSED
                  \<or> (s' = CONFIRMED \<and> status tx \<noteq> FINALIZED) \<or> s' = FINALIZED
              \<Longrightarrow> s' = status tx \<or> s' = FAILED \<or> weaker (status tx) s'
                  \<or> (status tx = CONFIRMED \<and> s' = PROCESSED)"
    using assms(3) by (cases "status tx") (auto simp add: weaker_def terminalStates_def)
  have sub: "\<And>s'. s' = status tx \<or> s' = FAILED \<or> (status tx = CREATED \<and> s' = SUBMITTED)
              \<Longrightarrow> s' = status tx \<or> s' = FAILED \<or> weaker (status tx) s'
                  \<or> (status tx = CONFIRMED \<and> s' = PROCESSED)"
    by (auto simp add: weaker_def)
  show ?thesis
  proof (cases "Transaction_from lib (serializedTransaction tx)")
    case (Inl e)
    with assms show ?thesis by (simp add: processGuarded_def processTransaction_def)
  next
    case (Inr t)
    show ?thesis
    proof (cases "tx_signature t")
      case None
      with Inr assms show ?thesis by (simp add: processGuarded_def processTransaction_def)
    next
      case (Some sg)
      show ?thesis
      proof (cases "getSignatureStatuses conn sg False")
        case (Inl e)
        with Inr Some assms show ?thesis
          by (simp add: processGuarded_def processTransaction_def)
      next
        case st: (Inr found)
        show ?thesis
        proof (cases found)
          case None
          with st Inr Some assms(1)
          have "processGuarded lib conn now ref (db, sent)
                  = (case handleNullStatus lib conn now (ref, tx) t sg (db, sent) of
                       Inl e \<Rightarrow> (db, sent) | Inr st' \<Rightarrow> st')"
            by (simp add: processGuarded_def processTransaction_def)
          with handleNullStatus_status[OF assms(1,2), where lib = lib and conn = conn
                 and now = now and t = t and sg = sg and sent = sent] sub
          show ?thesis by metis
        next
          case f: (Some f)
          with st Inr Some assms(1)
          have "processGuarded lib conn now ref (db, sent)
                  = handleExistingStatus now (ref, tx) (confirmationStatus f) (db, sent)"
            by (simp add: processGuarded_def processTransaction_def)
          with handleExistingStatus_status[OF assms(1,2), where now = now
                 and c = "confirmationStatus f" and sent = sent] fwd
          show ?thesis by metis
        qed
      qed
    qed
  qed
qed

lemma cycle_status:
  assumes "wf_db db" and "getTransaction db ref = Some tx"
    and "status tx \<notin> set terminalStates"
  shows "\<exists>tx'. getTransaction (fst (processTransactions lib conns clock (db, sent))) ref
                 = Some tx'
               \<and> (status tx' = status tx \<or> status tx' = FAILED
                    \<or> weaker (status tx) (status tx')
                    \<or> (status tx = CONFIRMED \<and> status tx' = PROCESSED))"
proof -
  from processTransactions_visited[of "(db, sent)" ref tx lib conns clock] assms
  obtain db' sent' where
    wf': "wf_db db'" and
    g': "getTransaction db' ref = Some tx" and
    eq: "getTransaction (fst (processTransactions lib conns clock (db, sent))) ref
           = getTransaction
               (fst (processGuarded lib (conns ref) (clock ref) ref (db', sent'))) ref"
    by auto
  from wf' g' have sg: "signature tx = ref" by (rule wf_db_stored_signature)
  from processGuarded_status[OF g' sg assms(3), where lib = lib and conn = "conns ref"
         and now = "clock ref" and sent = sent'] eq
  show ?thesis by simp
qed

text \<open>
  C1 fails on the code. A record in \<open>CONFIRMED\<close> for which the ledger then reports
  \<open>processed\<close> is set back to \<open>PROCESSED\<close> by the cycle: the \<open>processed\<close> branch
  of \<open>handleExistingStatus\<close> only asks whether the record is already \<open>PROCESSED\<close>,
  where the \<open>confirmed\<close> branch also keeps a stronger state.
\<close>

theorem C1_confirmed_set_back_to_processed:
  "processTransactions demo_lib (always (ledger_reports ''processed'')) (always 7)
       (demo_store CONFIRMED, [])
     = (demo_db\<lparr>transactions :=
                 [(''sig-alice'', (demo_record CONFIRMED)\<lparr>status := PROCESSED, updatedAt := 7\<rparr>)]\<rparr>,
        [])
   \<and> weaker PROCESSED CONFIRMED"
  by (simp add: workflow_defs ledger_reports_def demo_store_def demo_record_def
        demo_lib_def demo_from_def demo_tx_signed_def demo_tx_def weaker_def)

text \<open>
  When a record is processed, its status becomes \<open>FAILED\<close> on one path only: no
  status on the ledger, blockhash no longer valid, finalized height not below
  \<open>lastValidBlockHeight\<close>, no status in the history search either, and a direct
  lookup that does not find the transaction.
\<close>

lemma handleExistingStatus_not_failed:
  assumes "getTransaction db ref = Some tx" and "signature tx = ref"
    and "status tx \<noteq> FAILED"
  shows "\<exists>tx'. getTransaction (fst (handleExistingStatus now (ref, tx) c (db, sent))) ref
                 = Some tx' \<and> status tx' \<noteq> FAILED"
  using handleExistingStatus_cases[of now ref tx c db sent] assms
  by (auto simp add: getTransaction_updateTransactionStatus)

lemma handleExpiredBlockhash_failed_iff:
  assumes "getTransaction db ref = Some tx" and "signature tx = ref"
    and "status tx \<noteq> FAILED"
  shows "(\<exists>tx'. getTransaction
                   (fst (case handleExpiredBlockhash conn now (ref, tx) sg (db, sent) of
                           Inl e \<Rightarrow> (db, sent) | Inr st' \<Rightarrow> st')) ref = Some tx'
                \<and> status tx' = FAILED)
         \<longleftrightarrow> ((\<exists>h. getEpochInfo conn = Inr h \<and> \<not> js_less (heightOf h) (lastValidBlockHeight tx))
              \<and> getSignatureStatuses conn sg True = Inr None
              \<and> (\<forall>found. conn_getTransaction conn sg \<noteq> Inr (Some found)))"
proof (cases "getEpochInfo conn")
  case (Inl e)
  with assms show ?thesis by (simp add: handleExpiredBlockhash_def)
next
  case (Inr h)
  show ?thesis
  proof (cases "js_less (heightOf h) (lastValidBlockHeight tx)")
    case True
    with Inr assms show ?thesis by (simp add: handleExpiredBlockhash_def)
  next
    case False
    show ?thesis
    proof (cases "getSignatureStatuses conn sg True")
      case (Inl e)
      with Inr False assms show ?thesis by (simp add: handleExpiredBlockhash_def)
    next
      case hist: (Inr found)
      show ?thesis
      proof (cases found)
        case (Some f)
        with hist Inr False assms show ?thesis by (simp add: handleExpiredBlockhash_def)
      next
        case None
        show ?thesis
        proof (cases "conn_getTransaction conn sg")
          case (Inl e)
          with None hist Inr False assms show ?thesis
            by (simp add: handleExpiredBlockhash_def getTransaction_updateTransactionStatus)
        next
          case look: (Inr r)
          with None hist Inr False assms show ?thesis
            by (cases r)
               (simp_all add: handleExpiredBlockhash_def
                              getTransaction_updateTransactionStatus)
        qed
      qed
    qed
  qed
qed

lemma processGuarded_failed_iff:
  assumes "getTransaction db ref = Some tx" and "signature tx = ref"
    and "status tx \<noteq> FAILED"
    and "Transaction_from lib (serializedTransaction tx) = Inr t"
    and "tx_signature t = Some sg"
  shows "(\<exists>tx'. getTransaction (fst (processGuarded lib conn now ref (db, sent))) ref
                  = Some tx' \<and> status tx' = FAILED)
         \<longleftrightarrow> (getSignatureStatuses conn sg False = Inr None
              \<and> isBlockhashValid conn (recentBlockhash t) = Inr False
              \<and> (\<exists>h. getEpochInfo conn = Inr h \<and> \<not> js_less (heightOf h) (lastValidBlockHeight tx))
              \<and> getSignatureStatuses conn sg True = Inr None
              \<and> (\<forall>found. conn_getTransaction conn sg \<noteq> Inr (Some found)))"
proof (cases "getSignatureStatuses conn sg False")
  case (Inl e)
  with assms show ?thesis by (simp add: processGuarded_def processTransaction_def)
next
  case st: (Inr found)
  show ?thesis
  proof (cases found)
    case (Some f)
    with st assms(1,4,5)
    have "processGuarded lib conn now ref (db, sent)
            = handleExistingStatus now (ref, tx) (confirmationStatus f) (db, sent)"
      by (simp add: processGuarded_def processTransaction_def)
    with handleExistingStatus_not_failed[OF assms(1-3), where now = now and c = "confirmationStatus f" and sent = sent]
      Some st
    show ?thesis by auto
  next
    case None
    with st assms(1,4,5)
    have pg: "processGuarded lib conn now ref (db, sent)
            = (case handleNullStatus lib conn now (ref, tx) t sg (db, sent) of
                 Inl e \<Rightarrow> (db, sent) | Inr st' \<Rightarrow> st')"
      by (simp add: processGuarded_def processTransaction_def)
    show ?thesis
    proof (cases "isBlockhashValid conn (recentBlockhash t)")
      case (Inl e)
      with pg assms(1,3) show ?thesis by (simp add: handleNullStatus_def)
    next
      case (Inr valid)
      show ?thesis
      proof (cases valid)
        case True
        with Inr pg assms(1-3) show ?thesis
          by (simp add: handleNullStatus_def getTransaction_updateTransactionStatus
                   split: sum.splits)
      next
        case False
        with Inr pg
        have "processGuarded lib conn now ref (db, sent)
                = (case handleExpiredBlockhash conn now (ref, tx) sg (db, sent) of
                     Inl e \<Rightarrow> (db, sent) | Inr st' \<Rightarrow> st')"
          by (simp add: handleNullStatus_def)
        with handleExpiredBlockhash_failed_iff[OF assms(1-3), where conn = conn and now = now and sg = sg and sent = sent]
          None st Inr False
        show ?thesis by simp
      qed
    qed
  qed
qed

lemma processGuarded_present:
  assumes "getTransaction db ref = Some tx" and "signature tx = ref"
  shows "\<exists>tx'. getTransaction (fst (processGuarded lib conn now ref (db, sent))) ref = Some tx'"
  using processGuarded_cases[OF assms(1), of lib conn now sent] assms
  by (auto simp add: getTransaction_updateTransactionStatus)

lemma processGuarded_failed_iff_decoded:
  assumes "getTransaction db ref = Some tx" and "signature tx = ref"
    and "status tx \<noteq> FAILED"
  shows "(\<exists>tx'. getTransaction (fst (processGuarded lib conn now ref (db, sent))) ref
                  = Some tx' \<and> status tx' = FAILED)
         \<longleftrightarrow> (\<exists>t sg. Transaction_from lib (serializedTransaction tx) = Inr t
              \<and> tx_signature t = Some sg
              \<and> getSignatureStatuses conn sg False = Inr None
              \<and> isBlockhashValid conn (recentBlockhash t) = Inr False
              \<and> (\<exists>h. getEpochInfo conn = Inr h \<and> \<not> js_less (heightOf h) (lastValidBlockHeight tx))
              \<and> getSignatureStatuses conn sg True = Inr None
              \<and> (\<forall>found. conn_getTransaction conn sg \<noteq> Inr (Some found)))"
proof (cases "Transaction_from lib (serializedTransaction tx)")
  case (Inl e)
  with assms show ?thesis by (simp add: processGuarded_def processTransaction_def)
next
  case (Inr t)
  show ?thesis
  proof (cases "tx_signature t")
    case None
    with Inr assms show ?thesis by (simp add: processGuarded_def processTransaction_def)
  next
    case (Some sg)
    from processGuarded_failed_iff[OF assms Inr Some,
           where conn = conn and now = now and sent = sent] Inr Some
    show ?thesis by simp
  qed
qed

text \<open>
  The first step of the failure-determination protocol: while the finalized height is
  below the record's \<open>lastValidBlockHeight\<close>, nothing is written.
\<close>

lemma handleExpiredBlockhash_waits:
  assumes "getEpochInfo conn = Inr h" and "js_less (heightOf h) (lastValidBlockHeight tx)"
  shows "handleExpiredBlockhash conn now (ref, tx) sg st = Inr st"
  using assms by (simp add: handleExpiredBlockhash_def)

lemma processGuarded_waits:
  assumes "getTransaction db ref = Some tx"
    and "Transaction_from lib (serializedTransaction tx) = Inr t"
    and "tx_signature t = Some sg"
    and "getSignatureStatuses conn sg False = Inr None"
    and "isBlockhashValid conn (recentBlockhash t) = Inr False"
    and "getEpochInfo conn = Inr h"
    and "js_less (heightOf h) (lastValidBlockHeight tx)"
  shows "processGuarded lib conn now ref (db, sent) = (db, sent)"
  using assms
  by (simp add: processGuarded_def processTransaction_def handleNullStatus_def
        handleExpiredBlockhash_waits)

text \<open>
  C4: take a stored non-terminal record and a cycle in which the finalized height that
  \<open>getEpochInfo\<close> reports while the record is processed (an absent height counting
  as 0) is below the record's \<open>lastValidBlockHeight\<close>. Then the record is not
  \<open>FAILED\<close> after the cycle, whatever else the ledger answers. And on the path where
  the recency marker is consulted and found expired (the ledger has no status for the
  signature and reports the blockhash as no longer valid), processing the record
  writes nothing and the record after the cycle is the record before it.
\<close>

theorem C4_waits_for_finalized_height:
  assumes "wf_db db"
    and "getTransaction db ref = Some tx"
    and "status tx \<notin> set terminalStates"
    and "getEpochInfo (conns ref) = Inr h"
    and "js_less (heightOf h) (lastValidBlockHeight tx)"
  shows "(\<exists>tx'. getTransaction (fst (processTransactions lib conns clock (db, sent))) ref
                  = Some tx' \<and> status tx' \<noteq> FAILED)
         \<and> (\<forall>t sg. Transaction_from lib (serializedTransaction tx) = Inr t
                  \<and> tx_signature t = Some sg
                  \<and> getSignatureStatuses (conns ref) sg False = Inr None
                  \<and> isBlockhashValid (conns ref) (recentBlockhash t) = Inr False
              \<longrightarrow> processTransaction lib (conns ref) (clock ref) ref (db, sent)
                    = Inr (db, sent)
                  \<and> getTransaction (fst (processTransactions lib conns clock (db, sent))) ref
                    = Some tx)"
proof -
  from processTransactions_visited[of "(db, sent)" ref tx lib conns clock] assms(1-3)
  obtain db' sent' where
    wf': "wf_db db'" and
    g': "getTransaction db' ref = Some tx" and
    eq: "getTransaction (fst (processTransactions lib conns clock (db, sent))) ref
           = getTransaction
               (fst (processGuarded lib (conns ref) (clock ref) ref (db', sent'))) ref"
    by auto
  from wf' g' have sg: "signature tx = ref" by (rule wf_db_stored_signature)
  from assms(3) have nf: "status tx \<noteq> FAILED" by (simp add: terminalStates_def)
  from processGuarded_present[OF g' sg, of lib "conns ref" "clock ref" sent']
  obtain tx' where
    p: "getTransaction (fst (processGuarded lib (conns ref) (clock ref) ref (db', sent'))) ref
          = Some tx'"
    by blast
  have "status tx' \<noteq> FAILED"
  proof
    assume "status tx' = FAILED"
    with p processGuarded_failed_iff_decoded[OF g' sg nf,
           where lib = lib and conn = "conns ref" and now = "clock ref" and sent = sent']
    obtain h' where "getEpochInfo (conns ref) = Inr h'"
      "\<not> js_less (heightOf h') (lastValidBlockHeight tx)"
      by auto
    with assms(4,5) show False by simp
  qed
  with p eq have first: "\<exists>tx'. getTransaction
        (fst (processTransactions lib conns clock (db, sent))) ref = Some tx'
        \<and> status tx' \<noteq> FAILED"
    by simp
  have second: "\<forall>t sg. Transaction_from lib (serializedTransaction tx) = Inr t
                  \<and> tx_signature t = Some sg
                  \<and> getSignatureStatuses (conns ref) sg False = Inr None
                  \<and> isBlockhashValid (conns ref) (recentBlockhash t) = Inr False
              \<longrightarrow> processTransaction lib (conns ref) (clock ref) ref (db, sent)
                    = Inr (db, sent)
                  \<and> getTransaction (fst (processTransactions lib conns clock (db, sent))) ref
                    = Some tx"
  proof (intro allI impI, elim conjE)
    fix t sg
    assume path: "Transaction_from lib (serializedTransaction tx) = Inr t"
      "tx_signature t = Some sg"
      "getSignatureStatuses (conns ref) sg False = Inr None"
      "isBlockhashValid (conns ref) (recentBlockhash t) = Inr False"
    from assms(2) path assms(4,5)
    have "processTransaction lib (conns ref) (clock ref) ref (db, sent) = Inr (db, sent)"
      by (simp add: processTransaction_def handleNullStatus_def handleExpiredBlockhash_waits)
    moreover
    from processGuarded_waits[OF g' path assms(4,5), of "clock ref" sent'] eq g'
    have "getTransaction (fst (processTransactions lib conns clock (db, sent))) ref = Some tx"
      by simp
    ultimately
    show "processTransaction lib (conns ref) (clock ref) ref (db, sent) = Inr (db, sent)
          \<and> getTransaction (fst (processTransactions lib conns clock (db, sent))) ref
              = Some tx"
      by simp
  qed
  from first second show ?thesis by (rule conjI)
qed

theorem C4_waits_for_finalized_height_witness:
  "wf_db (demo_store SUBMITTED)
   \<and> getTransaction (demo_store SUBMITTED) ''sig-alice'' = Some (demo_record SUBMITTED)
   \<and> status (demo_record SUBMITTED) \<notin> set terminalStates
   \<and> getEpochInfo (always (ledger_silent (Some 999) (Inr None)) ''sig-alice'')
       = Inr (Some 999)
   \<and> js_less (heightOf (Some 999)) (lastValidBlockHeight (demo_record SUBMITTED))
   \<and> processTransaction demo_lib (ledger_silent (Some 999) (Inr None)) 7 ''sig-alice''
        (demo_store SUBMITTED, []) = Inr (demo_store SUBMITTED, [])
   \<and> getTransaction
        (fst (processTransactions demo_lib (always (ledger_silent (Some 999) (Inr None)))
                (always 7) (demo_store SUBMITTED, []))) ''sig-alice''
       = Some (demo_record SUBMITTED)"
proof -
  have nt: "status (demo_record SUBMITTED) \<notin> set terminalStates"
    by (simp add: demo_record_def terminalStates_def)
  have e: "getEpochInfo (always (ledger_silent (Some 999) (Inr None)) ''sig-alice'')
             = Inr (Some 999)"
    by (simp add: ledger_silent_def always_def)
  have h: "js_less (heightOf (Some 999)) (lastValidBlockHeight (demo_record SUBMITTED))"
    by (simp add: heightOf_def demo_record_def)
  from C4_waits_for_finalized_height[OF demo_store_wf demo_store_get nt,
         where conns = "always (ledger_silent (Some 999) (Inr None))" and h = "Some 999"
           and lib = demo_lib and clock = "always 7" and sent = "[]", OF e h]
    demo_store_wf demo_store_get nt e h demo_decodes[of SUBMITTED] demo_on_chain_signature
  show ?thesis by (simp add: ledger_silent_def always_def)
qed

section \<open>Runs\<close>

lemma getTransaction_addTransaction:
  "getTransaction (addTransaction db rec) k
     = (if getTransaction db (signature rec) = None \<and> k = signature rec
        then Some rec else getTransaction db k)"
  by (simp add: getTransaction_def addTransaction_def update_conv')

lemma users_addTransaction [simp]: "users (addTransaction db rec) = users db"
  by (simp add: addTransaction_def)

text \<open>The relayer leaves the store as it was or adds one new record in \<open>CREATED\<close>.\<close>

lemma relay_store_cases:
  "snd (relayTransaction lib keypair now db serialized lastValid) = db
   \<or> (\<exists>rec. status rec = CREATED \<and> getTransaction db (signature rec) = None
          \<and> snd (relayTransaction lib keypair now db serialized lastValid)
              = addTransaction db rec)"
proof (cases "relayTransaction lib keypair now db serialized lastValid")
  case (Pair res db')
  show ?thesis
  proof (cases "db' = db")
    case True
    with Pair show ?thesis by simp
  next
    case False
    with Pair show ?thesis
      by (auto simp add: relayTransaction_def
               split: sum.splits outcome.splits option.splits if_splits
               intro!: exI[where x = "\<lparr>signature = _, serializedTransaction = _, sender = _,
                                      recipient = _, amount = _, lastValidBlockHeight = _,
                                      status = CREATED, createdAt = _, updatedAt = _\<rparr>"])
  qed
qed

lemma run_append:
  "run lib keypair (as @ bs) rs = run lib keypair bs (run lib keypair as rs)"
  by (induction as arbitrary: rs) simp_all

lemma step_wf: "wf_db (fst (fst rs)) \<Longrightarrow> wf_db (fst (fst (step lib keypair a rs)))"
proof (cases a)
  case (Register pk nm)
  assume "wf_db (fst (fst rs))"
  with Register show ?thesis by (simp add: wf_db_addUser)
next
  case (Submit serialized lastValid now)
  assume "wf_db (fst (fst rs))"
  with Submit relay_store_cases[of lib keypair now "fst (fst rs)" serialized lastValid]
  show ?thesis by (auto simp add: wf_db_addTransaction)
next
  case StartCycle
  assume "wf_db (fst (fst rs))"
  with StartCycle show ?thesis by simp
next
  case (Advance i conn now)
  assume wf: "wf_db (fst (fst rs))"
  obtain db sent cycles where rs: "rs = ((db, sent), cycles)" by (cases rs) auto
  with wf Advance show ?thesis
    by (simp add: processGuarded_wf split: list.splits)
qed

lemma run_wf: "wf_db (fst (fst rs)) \<Longrightarrow> wf_db (fst (fst (run lib keypair actions rs)))"
  by (induction actions arbitrary: rs) (simp_all add: step_wf)

lemma step_registered:
  "isUserRegistered (fst (fst rs)) pk
     \<Longrightarrow> isUserRegistered (fst (fst (step lib keypair a rs))) pk"
proof (cases a)
  case (Register pk' nm)
  assume "isUserRegistered (fst (fst rs)) pk"
  with Register show ?thesis by (simp add: isUserRegistered_def addUser_def update_conv')
next
  case (Submit serialized lastValid now)
  assume "isUserRegistered (fst (fst rs)) pk"
  with Submit relay_store_cases[of lib keypair now "fst (fst rs)" serialized lastValid]
  show ?thesis by (auto simp add: isUserRegistered_def)
next
  case StartCycle
  assume "isUserRegistered (fst (fst rs)) pk"
  with StartCycle show ?thesis by simp
next
  case (Advance i conn now)
  assume r: "isUserRegistered (fst (fst rs)) pk"
  obtain db sent cycles where rs: "rs = ((db, sent), cycles)" by (cases rs) auto
  with r Advance show ?thesis
    by (simp add: isUserRegistered_def processGuarded_users split: list.splits)
qed

lemma step_stored:
  "getTransaction (fst (fst rs)) k \<noteq> None
     \<Longrightarrow> getTransaction (fst (fst (step lib keypair a rs))) k \<noteq> None"
proof (cases a)
  case (Register pk' nm)
  assume "getTransaction (fst (fst rs)) k \<noteq> None"
  with Register show ?thesis by (simp add: getTransaction_def addUser_def)
next
  case (Submit serialized lastValid now)
  assume "getTransaction (fst (fst rs)) k \<noteq> None"
  with Submit relay_store_cases[of lib keypair now "fst (fst rs)" serialized lastValid]
  show ?thesis by (auto simp add: getTransaction_addTransaction)
next
  case StartCycle
  assume "getTransaction (fst (fst rs)) k \<noteq> None"
  with StartCycle show ?thesis by simp
next
  case (Advance i conn now)
  assume s: "getTransaction (fst (fst rs)) k \<noteq> None"
  obtain db sent cycles where rs: "rs = ((db, sent), cycles)" by (cases rs) auto
  from s rs have "k \<in> set (map fst (transactions db))"
    by (simp add: getTransaction_def map_of_eq_None_iff)
  then have "\<And>ref. k \<in> set (map fst (transactions
                 (fst (processGuarded lib conn now ref (db, sent)))))"
    by (simp only: processGuarded_keys)
  then have "\<And>ref. getTransaction (fst (processGuarded lib conn now ref (db, sent))) k \<noteq> None"
    by (simp add: getTransaction_def map_of_eq_None_iff)
  with s rs Advance show ?thesis by (simp split: list.splits)
qed

lemma run_registered:
  "isUserRegistered (fst (fst rs)) pk
     \<Longrightarrow> isUserRegistered (fst (fst (run lib keypair actions rs))) pk"
  by (induction actions arbitrary: rs) (simp_all add: step_registered)

lemma run_stored:
  "getTransaction (fst (fst rs)) k \<noteq> None
     \<Longrightarrow> getTransaction (fst (fst (run lib keypair actions rs))) k \<noteq> None"
proof (induction actions arbitrary: rs)
  case Nil
  then show ?case by simp
next
  case (Cons a actions)
  from Cons.prems have "getTransaction (fst (fst (step lib keypair a rs))) k \<noteq> None"
    by (rule step_stored)
  from Cons.IH[OF this] show ?case by simp
qed

text \<open>
  A cycle that runs alone, from its start to its last object with no other action in
  between, is \<open>processTransactions\<close>.
\<close>

lemma advance_all:
  assumes "i < length cycles" and "cycles ! i = refs"
  shows "fst (run lib keypair (map (\<lambda>ref. Advance i (conns ref) (clock ref)) refs)
                (st, cycles))
           = processEach lib conns clock refs st"
  using assms
proof (induction refs arbitrary: st cycles)
  case Nil
  then show ?case by simp
next
  case (Cons r refs)
  from Cons.prems have "i < length (cycles[i := refs])" "(cycles[i := refs]) ! i = refs"
    by simp_all
  from Cons.IH[OF this, of "processGuarded lib (conns r) (clock r) r st"] Cons.prems
  show ?case by simp
qed

lemma cycle_alone:
  "fst (run lib keypair
          (StartCycle
           # map (\<lambda>ref. Advance (length (snd rs)) (conns ref) (clock ref))
               (map fst (getNonTerminalTransactions (fst (fst rs))))) rs)
     = processTransactions lib conns clock (fst rs)"
proof -
  let ?refs = "map fst (getNonTerminalTransactions (fst (fst rs)))"
  have "length (snd rs) < length (snd rs @ [?refs])" by simp
  moreover have "(snd rs @ [?refs]) ! length (snd rs) = ?refs" by simp
  ultimately show ?thesis
    using advance_all[of "length (snd rs)" "snd rs @ [?refs]" ?refs lib keypair conns clock
            "fst rs"]
    by (simp add: processTransactions_def)
qed

section \<open>Evaluation of the runs\<close>

lemmas run_defs = workflow_defs ledger_reports_def ledger_silent_def demo_store_def
  demo_record_def demo_lib_def demo_from_def demo_tx_signed_def demo_tx_def

lemma demo_setup_run:
  "run demo_lib demo_keypair demo_setup initial = ((demo_store CREATED, []), [])"
  by (simp add: demo_setup_def initial_def demo_db_def[symmetric] demo_admitted)

lemma demo_finalized_once_run:
  "run demo_lib demo_keypair demo_finalized_once initial
     = ((demo_db\<lparr>transactions :=
                  [(''sig-alice'',
                    (demo_record CREATED)\<lparr>status := FINALIZED, updatedAt := 10\<rparr>)]\<rparr>,
         [(demo_record CREATED)\<lparr>status := FINALIZED, updatedAt := 10\<rparr>]),
        [[''sig-alice''], []])"
  by (simp only: demo_finalized_once_def run_append demo_setup_run) (simp add: run_defs)

lemma demo_set_back_run:
  "run demo_lib demo_keypair demo_set_back initial
     = ((demo_db\<lparr>transactions :=
                  [(''sig-alice'',
                    (demo_record CREATED)\<lparr>status := PROCESSED, updatedAt := 11\<rparr>)]\<rparr>,
         [(demo_record CREATED)\<lparr>status := FINALIZED, updatedAt := 10\<rparr>]),
        [[], []])"
  by (simp only: demo_set_back_def run_append demo_finalized_once_run) (simp add: run_defs)

lemma demo_late_processed_run:
  "run demo_lib demo_keypair demo_late_processed initial
     = ((demo_db\<lparr>transactions :=
                  [(''sig-alice'',
                    (demo_record CREATED)\<lparr>status := FINALIZED, updatedAt := 12\<rparr>)]\<rparr>,
         [(demo_record CREATED)\<lparr>status := FINALIZED, updatedAt := 10\<rparr>,
          (demo_record CREATED)\<lparr>status := FINALIZED, updatedAt := 12\<rparr>]),
        [[], [], []])"
  by (simp only: demo_late_processed_def run_append demo_set_back_run) (simp add: run_defs)





section \<open>Claims about failure and receipts\<close>





text \<open>
  A receipt is sent exactly when a record is moved into \<open>FINALIZED\<close>: the test
  \<open>tx.status !== FINALIZED\<close> keeps a cycle that comes late from sending a second one
  for a record that is still \<open>FINALIZED\<close>.
\<close>

lemma processGuarded_receipt:
  assumes "wf_db db"
  shows "receipts_for ref (snd (processGuarded lib conn now ref (db, sent)))
           = receipts_for ref sent
             + (if finalized_at (fst (processGuarded lib conn now ref (db, sent))) ref
                   \<and> \<not> finalized_at db ref
                then 1 else 0)"
proof (cases "finalized_at db ref")
  case False
  with processGuarded_own_receipt[OF assms False, of lib conn now sent]
  show ?thesis by simp
next
  case True
  then obtain tx where g: "getTransaction db ref = Some tx" and f: "status tx = FINALIZED"
    by (auto simp add: finalized_at_def split: option.splits)
  from processGuarded_cases[OF g, of lib conn now sent] f True
  show ?thesis by auto
qed

text \<open>
  C6 fails on the code. Two cycles overlap; the second finds the transfer finalized,
  marks the record \<open>FINALIZED\<close> and sends the receipt. The first, which took its
  snapshot before that, comes back with the answer \<open>processed\<close> and sets the record
  back to \<open>PROCESSED\<close>, since the \<open>processed\<close> branch of \<open>handleExistingStatus\<close>
  only asks whether the record is already \<open>PROCESSED\<close>. The record is non-terminal
  again, so the next cycle visits it, finds the transfer finalized and sends a second
  receipt.
\<close>

theorem C6_second_receipt:
  "run demo_lib demo_keypair demo_finalized_once initial
     = ((demo_db\<lparr>transactions :=
                  [(''sig-alice'',
                    (demo_record CREATED)\<lparr>status := FINALIZED, updatedAt := 10\<rparr>)]\<rparr>,
         [(demo_record CREATED)\<lparr>status := FINALIZED, updatedAt := 10\<rparr>]),
        [[''sig-alice''], []])
   \<and> run demo_lib demo_keypair demo_set_back initial
     = ((demo_db\<lparr>transactions :=
                  [(''sig-alice'',
                    (demo_record CREATED)\<lparr>status := PROCESSED, updatedAt := 11\<rparr>)]\<rparr>,
         [(demo_record CREATED)\<lparr>status := FINALIZED, updatedAt := 10\<rparr>]),
        [[], []])
   \<and> run demo_lib demo_keypair demo_late_processed initial
     = ((demo_db\<lparr>transactions :=
                  [(''sig-alice'',
                    (demo_record CREATED)\<lparr>status := FINALIZED, updatedAt := 12\<rparr>)]\<rparr>,
         [(demo_record CREATED)\<lparr>status := FINALIZED, updatedAt := 10\<rparr>,
          (demo_record CREATED)\<lparr>status := FINALIZED, updatedAt := 12\<rparr>]),
        [[], [], []])
   \<and> receipts_for ''sig-alice'' (snd (fst (run demo_lib demo_keypair demo_late_processed initial)))
     = 2"
  by (simp add: demo_finalized_once_run demo_set_back_run demo_late_processed_run
        receipts_for_def demo_record_def)

section \<open>Resubmission\<close>

lemma validateParties_mono:
  assumes "validateParties keypair db t tr = Ok v"
    and "\<And>pk. isUserRegistered db pk \<Longrightarrow> isUserRegistered db' pk"
  shows "validateParties keypair db' t tr = Ok v"
proof -
  from validateParties_ok[OF assms(1)]
  have "isUserRegistered db (v_sender tr)" "isUserRegistered db (v_recipient tr)" by simp_all
  with assms(2) have "isUserRegistered db' (v_sender tr)" "isUserRegistered db' (v_recipient tr)"
    by simp_all
  with assms(1) validateParties_ok[OF assms(1)] show ?thesis
    by (simp add: validateParties_def isCompliant_def)
qed

lemma validateTransaction_mono:
  assumes "validateTransaction lib keypair db t = Ok v"
    and "\<And>pk. isUserRegistered db pk \<Longrightarrow> isUserRegistered db' pk"
  shows "validateTransaction lib keypair db' t = Ok v"
proof -
  from assms(1) have len: "length (instructions t) = 2"
    and fp: "feePayer t = Some (kp_publicKey keypair)"
    by (auto simp add: validateTransaction_def Let_def split: if_splits)
  from assms(1) len fp obtain target where
    c: "validateCreateAtaInstruction (instructions t ! 0) = Inr target"
    by (auto simp add: validateTransaction_def Let_def split: sum.splits)
  from assms(1) len fp c obtain tr where
    tr: "validateTransferInstruction lib (instructions t ! 1)
           (getRecipientFromCreateAta (instructions t ! 0)) = Ok tr"
    by (auto simp add: validateTransaction_def Let_def split: outcome.splits)
  from assms(1) len fp c tr obtain recipientAta where
    ra: "getAssociatedTokenAddressSync lib USDC_MINT (v_recipient tr) = Inr recipientAta"
    by (auto simp add: validateTransaction_def Let_def split: sum.splits)
  from assms(1) len fp c tr ra have eq: "target = recipientAta"
    and vp: "validateParties keypair db t tr = Ok v"
    by (auto simp add: validateTransaction_def Let_def split: if_splits)
  from validateParties_mono[OF vp assms(2)] len fp c tr ra eq
  show ?thesis by (simp add: validateTransaction_def Let_def)
qed

text \<open>What a successful answer of the relayer says about the submission.\<close>

lemma relay_success_facts:
  assumes "relayTransaction lib keypair now db serialized lastValid = (Success txid, db')"
  shows "\<exists>t v signedTx.
           Transaction_from lib serialized = Inr t
           \<and> validateTransaction lib keypair db t = Ok v
           \<and> partialSign lib keypair t = Inr signedTx
           \<and> \<not> (case tx_signature signedTx of None \<Rightarrow> True | Some sg \<Rightarrow> sg = [])
           \<and> 1 < length (signatures signedTx)
           \<and> pair_signature (signatures signedTx ! 1) = Some txid
           \<and> getTransaction db' txid \<noteq> None
           \<and> users db' = users db
           \<and> (db' = db \<or> (\<exists>rec. db' = addTransaction db rec))"
  using assms
  by (auto simp add: relayTransaction_def getTransaction_addTransaction
           split: sum.splits outcome.splits option.splits if_splits)

lemma relay_resubmit:
  assumes "Transaction_from lib serialized = Inr t"
    and "validateTransaction lib keypair db t = Ok v"
    and "partialSign lib keypair t = Inr signedTx"
    and "\<not> (case tx_signature signedTx of None \<Rightarrow> True | Some sg \<Rightarrow> sg = [])"
    and "1 < length (signatures signedTx)"
    and "pair_signature (signatures signedTx ! 1) = Some txid"
    and "getTransaction db txid \<noteq> None"
  shows "relayTransaction lib keypair now db serialized lastValid = (Success txid, db)"
  using assms by (simp add: relayTransaction_def)

text \<open>A validation that succeeds has asked the store four questions.\<close>

lemma validateTransaction_calls_ok:
  assumes "validateTransaction lib keypair db t = Ok v"
  shows "validateTransaction_calls lib keypair db t
           = [IsUserRegistered (v_sender v), IsUserRegistered (v_recipient v),
              IsCompliant (v_sender v), IsCompliant (v_recipient v)]"
proof -
  from assms have len: "length (instructions t) = 2"
    and fp: "feePayer t = Some (kp_publicKey keypair)"
    by (auto simp add: validateTransaction_def Let_def split: if_splits)
  from assms len fp obtain target where
    c: "validateCreateAtaInstruction (instructions t ! 0) = Inr target"
    by (auto simp add: validateTransaction_def Let_def split: sum.splits)
  from assms len fp c obtain tr where
    tr: "validateTransferInstruction lib (instructions t ! 1)
           (getRecipientFromCreateAta (instructions t ! 0)) = Ok tr"
    by (auto simp add: validateTransaction_def Let_def split: outcome.splits)
  from assms len fp c tr obtain recipientAta where
    ra: "getAssociatedTokenAddressSync lib USDC_MINT (v_recipient tr) = Inr recipientAta"
    by (auto simp add: validateTransaction_def Let_def split: sum.splits)
  from assms len fp c tr ra have eq: "target = recipientAta"
    and vp: "validateParties keypair db t tr = Ok v"
    by (auto simp add: validateTransaction_def Let_def split: if_splits)
  from validateParties_ok[OF vp] have "v = tr"
    "isUserRegistered db (v_sender tr)" "isUserRegistered db (v_recipient tr)"
    by simp_all
  with len fp c tr ra eq show ?thesis
    by (simp add: validateTransaction_calls_def validateParties_calls_def isCompliant_def
          Let_def)
qed

text \<open>
  C2 as stated fails in its last part. The second submission of the same bytes to
  the same relayer, on the store that the first one left, returns the same id and
  leaves the store alone; but before it looks the id up it validates the transaction
  as it did the first time, and on its way asks the store whether sender and
  recipient are registered and compliant.
\<close>

theorem C2_resubmission_is_validated:
  "relayTransaction demo_lib demo_keypair 0 demo_db ''wire-unsigned'' (Num 1000)
     = (Success ''sig-alice'', demo_store CREATED)
   \<and> relayTransaction_calls demo_lib demo_keypair demo_db ''wire-unsigned''
     = [IsUserRegistered ''Alice'', IsUserRegistered ''Bob'',
        IsCompliant ''Alice'', IsCompliant ''Bob'',
        GetTransaction ''sig-alice'', AddTransaction ''sig-alice'']
   \<and> relayTransaction demo_lib demo_keypair 1 (demo_store CREATED) ''wire-unsigned'' (Num 1000)
     = (Success ''sig-alice'', demo_store CREATED)
   \<and> relayTransaction_calls demo_lib demo_keypair (demo_store CREATED) ''wire-unsigned''
     = [IsUserRegistered ''Alice'', IsUserRegistered ''Bob'',
        IsCompliant ''Alice'', IsCompliant ''Bob'',
        GetTransaction ''sig-alice'']"
  using demo_admitted
  by (simp add: demo_defs gate_defs relayTransaction_calls_def validateTransaction_calls_def
        validateParties_calls_def Let_def)

text \<open>
  C2, amended. After a submission to a relayer has succeeded with an id, every later
  submission of the same bytes to the same relayer, whatever registrations,
  submissions and workflow steps have run in between, returns the same id and leaves
  the store as it is, and the store holds exactly one record under that id. The later
  submission is validated again: the relayer asks the store whether sender and
  recipient are registered and whether they are compliant, and only then looks the
  id up.
\<close>

theorem C2_admission_idempotent:
  assumes "wf_db db"
    and "relayTransaction lib keypair now db serialized lastValid = (Success txid, db')"
    and "rs = run lib keypair actions ((db', sent), cycles)"
  shows "relayTransaction lib keypair now' (fst (fst rs)) serialized lastValid'
           = (Success txid, fst (fst rs))
         \<and> length (filter (\<lambda>(k, r). k = txid) (transactions (fst (fst rs)))) = 1
         \<and> (\<exists>s r. relayTransaction_calls lib keypair (fst (fst rs)) serialized
                     = [IsUserRegistered s, IsUserRegistered r,
                        IsCompliant s, IsCompliant r, GetTransaction txid])"
proof -
  from relay_success_facts[OF assms(2)] obtain t v signedTx where
    dec: "Transaction_from lib serialized = Inr t" and
    val: "validateTransaction lib keypair db t = Ok v" and
    ps: "partialSign lib keypair t = Inr signedTx" and
    s0: "\<not> (case tx_signature signedTx of None \<Rightarrow> True | Some sg \<Rightarrow> sg = [])" and
    s1: "1 < length (signatures signedTx)" "pair_signature (signatures signedTx ! 1) = Some txid" and
    stored: "getTransaction db' txid \<noteq> None" and
    us: "users db' = users db" and
    shape: "db' = db \<or> (\<exists>rec. db' = addTransaction db rec)"
    by blast
  from shape assms(1) have wf': "wf_db db'" by (auto simp add: wf_db_addTransaction)
  with assms(3) have wf: "wf_db (fst (fst rs))"
    using run_wf[of "((db', sent), cycles)"] by simp
  have reg: "\<And>pk. isUserRegistered db pk \<Longrightarrow> isUserRegistered (fst (fst rs)) pk"
  proof -
    fix pk assume "isUserRegistered db pk"
    with us have "isUserRegistered (fst (fst ((db', sent), cycles))) pk"
      by (simp add: isUserRegistered_def)
    with assms(3) show "isUserRegistered (fst (fst rs)) pk" by (simp add: run_registered)
  qed
  from stored assms(3) have here: "getTransaction (fst (fst rs)) txid \<noteq> None"
    using run_stored[of "((db', sent), cycles)" txid] by simp
  note val' = validateTransaction_mono[OF val reg]
  from relay_resubmit[OF dec val' ps s0 s1 here]
  have one: "relayTransaction lib keypair now' (fst (fst rs)) serialized lastValid'
          = (Success txid, fst (fst rs))" .
  from here obtain r where "map_of (transactions (fst (fst rs))) txid = Some r"
    by (auto simp add: getTransaction_def)
  with wf have two: "length (filter (\<lambda>(k, r). k = txid) (transactions (fst (fst rs)))) = 1"
    by (simp add: wf_db_def stored_once)
  from dec val' ps s0 s1 here validateTransaction_calls_ok[OF val']
  have "relayTransaction_calls lib keypair (fst (fst rs)) serialized
          = [IsUserRegistered (v_sender v), IsUserRegistered (v_recipient v),
             IsCompliant (v_sender v), IsCompliant (v_recipient v), GetTransaction txid]"
    by (simp add: relayTransaction_calls_def)
  then have three: "\<exists>s r. relayTransaction_calls lib keypair (fst (fst rs)) serialized
                     = [IsUserRegistered s, IsUserRegistered r,
                        IsCompliant s, IsCompliant r, GetTransaction txid]"
    by blast
  from one two three show ?thesis by simp
qed

theorem C2_admission_idempotent_witness:
  "wf_db demo_db
   \<and> relayTransaction demo_lib demo_keypair 0 demo_db ''wire-unsigned'' (Num 1000)
       = (Success ''sig-alice'', demo_store CREATED)
   \<and> relayTransaction demo_lib demo_keypair 5 (demo_store CREATED) ''wire-unsigned'' (Num 2000)
       = (Success ''sig-alice'', demo_store CREATED)
   \<and> length (filter (\<lambda>(k, r). k = ''sig-alice'') (transactions (demo_store CREATED))) = 1
   \<and> (\<exists>s r. relayTransaction_calls demo_lib demo_keypair (demo_store CREATED) ''wire-unsigned''
               = [IsUserRegistered s, IsUserRegistered r,
                  IsCompliant s, IsCompliant r, GetTransaction ''sig-alice''])"
proof -
  have a: "wf_db demo_db" by (simp add: wf_db_def demo_db_def addUser_def empty_db_def)
  have b: "((demo_store CREATED, []), [])
             = run demo_lib demo_keypair [] ((demo_store CREATED, []), [])"
    by simp
  from C2_admission_idempotent[OF a demo_admitted b, where now' = 5 and lastValid' = "Num 2000"]
    a demo_admitted
  show ?thesis by simp
qed

end
